theory Spec2Isabelle
  imports Main
begin

section \<open>The node model: \<open>DNode\<close> and \<open>Note\<close>\<close>

text \<open>
  The classes \<open>DNode\<close> and \<open>Note\<close> hold object references (\<open>parent\<close>, \<open>children\<close>),
  and \<open>addChild\<close> mutates two objects at once.  Objects therefore live in an explicit
  store, a list of notes, and a reference is an index into it; \<open>new Note(...)\<close> appends.
\<close>

type_synonym ref = nat

text \<open>
  The object \<open>toRawProps\<close> returns: the nine keys picked by \<open>_.pick\<close>.
  \<open>IDNodeType\<close> is a string type of the missing \<open>types\<close> module; \<open>parentId\<close> is
  \<open>string | null\<close>, with \<open>None\<close> for \<open>null\<close>.
\<close>

record DNodeRawProps =
  id' :: string
  title :: string
  desc :: string
  type :: string
  updated :: string
  created :: string
  body :: string
  parentId :: "string option"
  childrenIds :: "string list"

text \<open>The fields of the class: the nine above and the two object references.\<close>

record DNode = DNodeRawProps +
  parent :: "ref option"
  children :: "ref list"

text \<open>
  \<open>Note\<close> adds \<open>schemaId\<close>.  The parser also reads \<open>n.fname\<close>; the class of
  \<open>part_000\<close> declares no such field, so it is carried here as an optional one
  (\<open>None\<close> is JavaScript's \<open>undefined\<close>).
\<close>

record Note = DNode +
  schemaId :: string
  fname :: "string option"

text \<open>
  Constructor options.  A key that \<open>_.defaults\<close> fills in is optional (\<open>None\<close> is an
  absent key); \<open>title\<close> and \<open>type\<close> have no default.  \<open>o_parent = Some None\<close> is an
  explicit \<open>null\<close>, and likewise for \<open>o_parentId\<close>.
\<close>

record IDNodeOpts =
  o_id :: "string option"
  o_title :: string
  o_desc :: "string option"
  o_type :: string
  o_updated :: "string option"
  o_created :: "string option"
  o_parent :: "ref option option"
  o_children :: "ref list option"
  o_body :: "string option"
  o_parentId :: "string option option"
  o_childrenIds :: "string list option"

record INoteOpts = IDNodeOpts +
  o_schemaId :: "string option"
  o_fname :: "string option"

text \<open>\<open>_.defaults\<close> for one key: the default is taken only where the key is undefined.\<close>

definition dflt :: "'a \<Rightarrow> 'a option \<Rightarrow> 'a" where
  "dflt d v = (case v of None \<Rightarrow> d | Some x \<Rightarrow> x)"

definition DNode_ctor :: "'a IDNodeOpts_scheme \<Rightarrow> DNode" where
  "DNode_ctor opts =
     \<lparr> id' = dflt ''TODO'' (o_id opts),
       title = o_title opts,
       desc = dflt '''' (o_desc opts),
       type = o_type opts,
       updated = dflt ''TODO'' (o_updated opts),
       created = dflt ''TODO'' (o_created opts),
       body = dflt '''' (o_body opts),
       parentId = dflt None (o_parentId opts),
       childrenIds = dflt [] (o_childrenIds opts),
       parent = dflt None (o_parent opts),
       children = dflt [] (o_children opts) \<rparr>"

text \<open>
  \<open>super({ ...props, parent: null, children: [] })\<close>, then
  \<open>this.schemaId = props.schemaId || "-1"\<close>: an empty string is falsy too.
\<close>

definition Note_ctor :: "INoteOpts \<Rightarrow> Note" where
  "Note_ctor props =
     DNode.extend
       (DNode_ctor (props\<lparr>o_parent := Some None, o_children := Some []\<rparr>))
       \<lparr> schemaId = (case o_schemaId props of
                        None \<Rightarrow> ''-1''
                      | Some s \<Rightarrow> if s = '''' then ''-1'' else s),
         fname = o_fname props \<rparr>"

definition toRawProps :: "'a DNode_scheme \<Rightarrow> DNodeRawProps" where
  "toRawProps n =
     \<lparr> id' = id' n, title = title n, desc = desc n, type = type n,
       updated = updated n, created = created n, body = body n,
       parentId = parentId n, childrenIds = childrenIds n \<rparr>"

text \<open>Reconstructing from a flattened record: \<open>new Note(rawProps)\<close>, every picked key present.\<close>

definition opts_of_raw :: "DNodeRawProps \<Rightarrow> INoteOpts" where
  "opts_of_raw r =
     \<lparr> o_id = Some (id' r), o_title = title r, o_desc = Some (desc r), o_type = type r,
       o_updated = Some (updated r), o_created = Some (created r),
       o_parent = None, o_children = None, o_body = Some (body r),
       o_parentId = Some (parentId r), o_childrenIds = Some (childrenIds r),
       o_schemaId = None, o_fname = None \<rparr>"

subsection \<open>The store, \<open>addChild\<close> and \<open>path\<close>\<close>

type_synonym store = "Note list"

text \<open>\<open>new Note(props)\<close>: the new object's reference and the extended store.\<close>

definition new_Note :: "INoteOpts \<Rightarrow> store \<Rightarrow> ref \<times> store" where
  "new_Note props h = (length h, h @ [Note_ctor props])"

text \<open>\<open>this.children.push(node); node.parent = this\<close>, on the objects \<open>this = p\<close> and \<open>node = c\<close>.\<close>

definition addChild :: "ref \<Rightarrow> ref \<Rightarrow> store \<Rightarrow> store" where
  "addChild p c h =
     (let h1 = h[p := (h ! p)\<lparr>children := children (h ! p) @ [c]\<rparr>]
      in h1[c := (h1 ! c)\<lparr>parent := Some p\<rparr>])"

text \<open>
  The getter \<open>path\<close> recurses along \<open>parent\<close>.  On a cyclic chain the JavaScript never
  returns a string (the stack overflows); \<open>None\<close> stands for that.
\<close>

partial_function (option) path :: "store \<Rightarrow> ref \<Rightarrow> string option" where
  "path h r =
     (case parent (h ! r) of
        None \<Rightarrow> Some (title (h ! r))
      | Some p \<Rightarrow>
          if title (h ! p) \<noteq> ''root''
          then Option.bind (path h p) (\<lambda>pp. Some (pp @ ''.'' @ title (h ! r)))
          else Some (title (h ! r)))"

declare path.simps [code]

section \<open>File metadata: \<open>getFileMeta\<close>\<close>

record FileMeta =
  prefix :: string
  fpath :: string

text \<open>
  \<open>path.parse(fpath).name\<close> of Node's POSIX \<open>path\<close> module, for a path that does not end
  in a slash: the part after the last slash, without its extension.  The extension starts
  at the last dot, unless that dot is the first character or the base is \<open>..\<close>.
\<close>

definition basename :: "string \<Rightarrow> string" where
  "basename p = rev (takeWhile (\<lambda>c. c \<noteq> CHR ''/'') (rev p))"

definition parse_name :: "string \<Rightarrow> string" where
  "parse_name p =
     (let b = basename p;
          ext = takeWhile (\<lambda>c. c \<noteq> CHR ''.'') (rev b);
          stem = take (length b - length ext - 1) b
      in if CHR ''.'' \<notin> set b \<or> stem = [] \<or> b = ''..'' then b else stem)"

text \<open>\<open>s.split(".")\<close>: at least one segment, one more than the number of dots.\<close>

fun split_dot :: "string \<Rightarrow> string list" where
  "split_dot [] = [[]]"
| "split_dot (c # cs) =
     (if c = CHR ''.'' then [] # split_dot cs
      else (case split_dot cs of
              [] \<Rightarrow> [[c]]
            | x # xs \<Rightarrow> (c # x) # xs))"

text \<open>\<open>xs.join(".")\<close>.\<close>

fun dot_join :: "string list \<Rightarrow> string" where
  "dot_join [] = []"
| "dot_join [x] = x"
| "dot_join (x # y # zs) = x @ ''.'' @ dot_join (y # zs)"

text \<open>
  \<open>FileMetaDict\<close>: an object keyed by level.  A key exists once a file of that level was
  pushed, so \<open>fileMetaDict[lvl]\<close> is undefined (\<open>None\<close>) for a level without files.
\<close>

type_synonym FileMetaDict = "(nat \<times> FileMeta list) list"

definition meta_push :: "nat \<Rightarrow> FileMeta \<Rightarrow> FileMetaDict \<Rightarrow> FileMetaDict" where
  "meta_push lvl m d =
     (case map_of d lvl of
        None \<Rightarrow> d @ [(lvl, [m])]
      | Some _ \<Rightarrow> map (\<lambda>(k, ms). if k = lvl then (k, ms @ [m]) else (k, ms)) d)"

definition file_meta :: "string \<Rightarrow> FileMeta" where
  "file_meta fp = \<lparr> prefix = parse_name fp, fpath = fp \<rparr>"

definition level :: "string \<Rightarrow> nat" where
  "level fp = length (split_dot (parse_name fp))"

definition getFileMeta :: "string list \<Rightarrow> FileMetaDict" where
  "getFileMeta fpaths = foldl (\<lambda>d fp. meta_push (level fp) (file_meta fp) d) [] fpaths"

text \<open>\<open>_.max(_.keys(fileMetaDict).map(toInteger)) || 2\<close>.\<close>

definition maxLvl_of :: "FileMetaDict \<Rightarrow> nat" where
  "maxLvl_of d =
     (case map fst d of
        [] \<Rightarrow> 2
      | k # ks \<Rightarrow> (let m = foldl max k ks in if m = 0 then 2 else m))"

section \<open>The tree builder: \<open>FileParser\<close>\<close>

text \<open>
  The entries of \<open>this.errors\<close>, and what the code can throw: the collaborator's own error
  rethrown, \<open>new Error(JSON.stringify(errorMsg))\<close>, a \<open>TypeError\<close> for a property read
  on \<open>undefined\<close> or \<open>null\<close>, and a \<open>RangeError\<close> when the \<open>path\<close> getter never
  returns.  A throw leaves the mutations made before it in place, so every operation
  returns its outcome together with the state.
\<close>

datatype errorMsg = BAD_PARSE FileMeta string | NO_PARENT_PATH FileMeta string

datatype exn = CollabError string | NoParentError errorMsg | TypeError | RangeError

datatype 'a outcome = Return 'a | Throw exn

record FileParserOpts =
  o_errorOnEmpty :: "bool option"
  o_errorOnBadParse :: "bool option"

record FileParserProps =
  errorOnEmpty :: bool
  errorOnBadParse :: bool

record ToNodeOpts =
  t_errorOnEmpty :: "bool option"
  t_isRoot :: "bool option"
  t_errorOnBadParse :: "bool option"

text \<open>The mutable state of a run: the objects, \<open>this.errors\<close> and the set \<open>this.missing\<close>.\<close>

record pstate =
  heap :: store
  errors :: "errorMsg list"
  missing :: "string list"

text \<open>
  \<open>nodesStoreByFname\<close>: an object from names to notes (or null, for a root that failed to
  materialize), in insertion order, which is the order of \<open>_.values\<close> for keys that are
  not integers.
\<close>

type_synonym NoteDict = "(string \<times> ref option) list"

text \<open>
  What the parser calls and \<open>src/\<close> does not hold.  \<open>mdFile2NodeProps\<close> takes the store's
  root and the file's \<open>fpath\<close> and returns the raw props or throws; \<open>globMatch\<close> is the
  glob predicate; \<open>dirName\<close> is \<open>DNodeUtils.dirName\<close>; \<open>findClosestParent\<close> gets the
  orphan (for its \<open>logicalPath\<close>) and the dictionary; \<open>createStubNotes\<close> gets the closest
  parent and the orphan, mutates the store and returns the stubs or throws.
\<close>

record collab =
  mdFile2NodeProps :: "string \<Rightarrow> string \<Rightarrow> string + INoteOpts"
  globMatch :: "string list \<Rightarrow> string \<Rightarrow> bool"
  dirName :: "string \<Rightarrow> string"
  findClosestParent :: "store \<Rightarrow> ref \<Rightarrow> NoteDict \<Rightarrow> ref option"
  createStubNotes :: "ref option \<Rightarrow> ref \<Rightarrow> store \<Rightarrow> ref list outcome \<times> store"

text \<open>The constructor's \<open>_.defaults(opts, {errorOnEmpty: true, errorOnBadParse: true, ...})\<close>.\<close>

definition FileParser_opts :: "FileParserOpts \<Rightarrow> FileParserProps" where
  "FileParser_opts opts =
     \<lparr> errorOnEmpty = dflt True (o_errorOnEmpty opts),
       errorOnBadParse = dflt True (o_errorOnBadParse opts) \<rparr>"

definition FileParser_init :: pstate where
  "FileParser_init = \<lparr> heap = [], errors = [], missing = [] \<rparr>"

text \<open>\<open>dict[key] = v\<close> and \<open>set.add(x)\<close>.\<close>

definition dict_set :: "string \<Rightarrow> ref option \<Rightarrow> NoteDict \<Rightarrow> NoteDict" where
  "dict_set k v d =
     (case map_of d k of
        None \<Rightarrow> d @ [(k, v)]
      | Some _ \<Rightarrow> map (\<lambda>(k', v'). if k' = k then (k', v) else (k', v')) d)"

definition set_add :: "string \<Rightarrow> string list \<Rightarrow> string list" where
  "set_add x xs = (if x \<in> set xs then xs else xs @ [x])"

text \<open>The property key \<open>n.fname\<close>: an undefined name is the key \<open>"undefined"\<close>.\<close>

definition fname_key :: "store \<Rightarrow> ref \<Rightarrow> string" where
  "fname_key h n = (case fname (h ! n) of None \<Rightarrow> ''undefined'' | Some f \<Rightarrow> f)"

definition index_nodes :: "store \<Rightarrow> ref list \<Rightarrow> NoteDict \<Rightarrow> NoteDict" where
  "index_nodes h ns d = foldl (\<lambda>d n. dict_set (fname_key h n) (Some n) d) d ns"

text \<open>\<open>_.find(parents, (p) => p.path === parentPath) || null\<close>.\<close>

fun find_parent :: "store \<Rightarrow> ref list \<Rightarrow> string \<Rightarrow> ref option outcome" where
  "find_parent h [] pp = Return None"
| "find_parent h (p # ps) pp =
     (case path h p of
        None \<Rightarrow> Throw RangeError
      | Some s \<Rightarrow> if s = pp then Return (Some p) else find_parent h ps pp)"

text \<open>
  The end of \<open>toNode\<close>: \<open>new Note({ ...noteProps, parent, children: [] })\<close>, then
  \<open>parent.addChild(note)\<close> when a parent was found.
\<close>

definition make_note ::
  "INoteOpts \<Rightarrow> ref option \<Rightarrow> string option \<Rightarrow> pstate
     \<Rightarrow> (ref option \<times> string option) outcome \<times> pstate" where
  "make_note noteProps parent' missing' s =
     (let (n, h1) = new_Note (noteProps\<lparr>o_parent := Some parent', o_children := Some []\<rparr>)
                      (heap s);
          h2 = (case parent' of None \<Rightarrow> h1 | Some p \<Rightarrow> addChild p n h1)
      in (Return (Some n, missing'), s\<lparr>heap := h2\<rparr>))"

definition toNode ::
  "collab \<Rightarrow> string \<Rightarrow> FileMeta \<Rightarrow> ref list \<Rightarrow> ToNodeOpts \<Rightarrow> pstate
     \<Rightarrow> (ref option \<times> string option) outcome \<times> pstate" where
  "toNode P root ent parents opts s =
     (let eoe = dflt True (t_errorOnEmpty opts);
          isRoot = dflt False (t_isRoot opts);
          eobp = dflt True (t_errorOnBadParse opts)
      in case mdFile2NodeProps P root (fpath ent) of
           Inl err \<Rightarrow>
             if eobp then (Throw (CollabError err), s)
             else (Return (None, None), s\<lparr>errors := errors s @ [BAD_PARSE ent err]\<rparr>)
         | Inr noteProps \<Rightarrow>
             (let parentPath = dirName P (prefix ent)
              in case find_parent (heap s) parents parentPath of
                   Throw x \<Rightarrow> (Throw x, s)
                 | Return parent' \<Rightarrow>
                     if parent' = None \<and> \<not> isRoot
                     then (let errorMsg = NO_PARENT_PATH ent parentPath;
                               s1 = s\<lparr>errors := errors s @ [errorMsg]\<rparr>
                           in if eoe then (Throw (NoParentError errorMsg), s1)
                              else make_note noteProps parent' (Some parentPath) s1)
                     else make_note noteProps parent' None s))"

text \<open>
  The callback of the level loop's \<open>map\<close>.  \<open>if (missing)\<close> is a truthiness test: it
  fails for \<open>null\<close> and for the empty string.
\<close>

definition parse_ent ::
  "collab \<Rightarrow> string \<Rightarrow> FileParserProps \<Rightarrow> ref list \<Rightarrow> FileMeta \<Rightarrow> NoteDict \<times> pstate
     \<Rightarrow> ref option outcome \<times> NoteDict \<times> pstate" where
  "parse_ent P root fopts prevNodes ent ds =
     (let (d, s) = ds
      in if globMatch P [''root.*''] (fpath ent) then (Return None, d, s)
         else case toNode P root ent prevNodes
                     \<lparr> t_errorOnEmpty = Some (errorOnEmpty fopts), t_isRoot = None,
                       t_errorOnBadParse = Some (errorOnBadParse fopts) \<rparr> s of
                (Throw x, s1) \<Rightarrow> (Throw x, d, s1)
              | (Return (node, missing'), s1) \<Rightarrow>
                  (case missing' of
                     None \<Rightarrow> (Return node, d, s1)
                   | Some m \<Rightarrow>
                       if m = [] then (Return node, d, s1)
                       else (case node of
                               None \<Rightarrow> (Throw TypeError, d, s1)
                             | Some n \<Rightarrow>
                                 (let closetParent = findClosestParent P (heap s1) n d
                                  in case createStubNotes P closetParent n (heap s1) of
                                       (Throw x, h2) \<Rightarrow> (Throw x, d, s1\<lparr>heap := h2\<rparr>)
                                     | (Return stubNodes, h2) \<Rightarrow>
                                         (Return node, index_nodes h2 stubNodes d,
                                          s1\<lparr>heap := h2,
                                             missing := set_add m (missing s1)\<rparr>)))))"

text \<open>\<open>(fileMetaDict[lvl] || []).map(...)\<close>: an exception leaves the \<open>map\<close> at once.\<close>

fun map_ents ::
  "collab \<Rightarrow> string \<Rightarrow> FileParserProps \<Rightarrow> ref list \<Rightarrow> FileMeta list \<Rightarrow> NoteDict \<times> pstate
     \<Rightarrow> ref option list outcome \<times> NoteDict \<times> pstate" where
  "map_ents P root fopts prevNodes [] ds = (Return [], ds)"
| "map_ents P root fopts prevNodes (ent # ents) ds =
     (case parse_ent P root fopts prevNodes ent ds of
        (Throw x, ds1) \<Rightarrow> (Throw x, ds1)
      | (Return node, ds1) \<Rightarrow>
          (case map_ents P root fopts prevNodes ents ds1 of
             (Throw x, ds2) \<Rightarrow> (Throw x, ds2)
           | (Return nodes, ds2) \<Rightarrow> (Return (node # nodes), ds2)))"

text \<open>\<open>.filter(Boolean)\<close> on a list of notes and nulls.\<close>

fun compact :: "'a option list \<Rightarrow> 'a list" where
  "compact [] = []"
| "compact (None # xs) = compact xs"
| "compact (Some x # xs) = x # compact xs"

text \<open>The \<open>while (lvl <= maxLvl)\<close> loop.\<close>

function parse_loop ::
  "collab \<Rightarrow> string \<Rightarrow> FileParserProps \<Rightarrow> FileMetaDict \<Rightarrow> nat \<Rightarrow> nat \<Rightarrow> ref list
     \<Rightarrow> NoteDict \<times> pstate \<Rightarrow> unit outcome \<times> NoteDict \<times> pstate" where
  "parse_loop P root fopts fmd maxLvl lvl prevNodes ds =
     (if lvl \<le> maxLvl
      then (case map_ents P root fopts prevNodes (dflt [] (map_of fmd lvl)) ds of
              (Throw x, ds1) \<Rightarrow> (Throw x, ds1)
            | (Return nodes, d1, s1) \<Rightarrow>
                (let currNodes = compact nodes
                 in parse_loop P root fopts fmd maxLvl (lvl + 1) currNodes
                      (index_nodes (heap s1) currNodes d1, s1)))
      else (Return (), ds))"
  by pat_completeness auto
termination
  by (relation "measure (\<lambda>(P, root, fopts, fmd, maxLvl, lvl, prevNodes, ds). Suc maxLvl - lvl)")
    auto

declare parse_loop.simps [simp del]

text \<open>
  The first layer: \<open>toNode(ent, [], store, {isRoot: true})\<close> for every level-1 file but
  \<open>root.md\<close>, then \<open>rootNode.addChild(n); nodesStoreByFname[n.fname] = n\<close> for each.
  \<open>rootNode\<close> is null when \<open>root.md\<close> failed to materialize and the failure was only
  recorded; calling \<open>addChild\<close> on it throws.
\<close>

fun level1_map ::
  "collab \<Rightarrow> string \<Rightarrow> FileMeta list \<Rightarrow> pstate \<Rightarrow> ref option list outcome \<times> pstate" where
  "level1_map P root [] s = (Return [], s)"
| "level1_map P root (ent # ents) s =
     (case toNode P root ent []
             \<lparr> t_errorOnEmpty = None, t_isRoot = Some True, t_errorOnBadParse = None \<rparr> s of
        (Throw x, s1) \<Rightarrow> (Throw x, s1)
      | (Return (node, _), s1) \<Rightarrow>
          (case level1_map P root ents s1 of
             (Throw x, s2) \<Rightarrow> (Throw x, s2)
           | (Return nodes, s2) \<Rightarrow> (Return (node # nodes), s2)))"

fun level1_attach ::
  "ref option \<Rightarrow> ref option list \<Rightarrow> NoteDict \<times> pstate \<Rightarrow> unit outcome \<times> NoteDict \<times> pstate" where
  "level1_attach rootNode [] ds = (Return (), ds)"
| "level1_attach rootNode (n # ns) (d, s) =
     (case (rootNode, n) of
        (Some r, Some c) \<Rightarrow>
          (let h1 = addChild r c (heap s)
           in level1_attach rootNode ns (dict_set (fname_key h1 c) (Some c) d, s\<lparr>heap := h1\<rparr>))
      | _ \<Rightarrow> (Throw TypeError, d, s))"

definition parse ::
  "collab \<Rightarrow> string \<Rightarrow> FileParserProps \<Rightarrow> string list \<Rightarrow> pstate
     \<Rightarrow> ref option list outcome \<times> pstate" where
  "parse P root fopts data s =
     (if data = [] then (Return [], s)
      else
        (let fileMetaDict = getFileMeta data;
             maxLvl = maxLvl_of fileMetaDict
         in case map_of fileMetaDict 1 of
              None \<Rightarrow> (Throw TypeError, s)
            | Some lvl1 \<Rightarrow>
                (case find (\<lambda>n. fpath n = ''root.md'') lvl1 of
                   None \<Rightarrow> (Return [], s)
                 | Some rootEnt \<Rightarrow>
                     (case toNode P root rootEnt []
                             \<lparr> t_errorOnEmpty = None, t_isRoot = Some True,
                               t_errorOnBadParse = Some (errorOnBadParse fopts) \<rparr> s of
                        (Throw x, s1) \<Rightarrow> (Throw x, s1)
                      | (Return (rootNode, _), s1) \<Rightarrow>
                          (case level1_map P root
                                  (filter (\<lambda>n. fpath n \<noteq> ''root.md'') lvl1) s1 of
                             (Throw x, s2) \<Rightarrow> (Throw x, s2)
                           | (Return prevNodes, s2) \<Rightarrow>
                               (case level1_attach rootNode prevNodes
                                       (dict_set ''root'' rootNode [], s2) of
                                  (Throw x, d3, s3) \<Rightarrow> (Throw x, s3)
                                | (Return _, d3, s3) \<Rightarrow>
                                    (case parse_loop P root fopts fileMetaDict maxLvl 2
                                            (compact prevNodes) (d3, s3) of
                                       (Throw x, d4, s4) \<Rightarrow> (Throw x, s4)
                                     | (Return _, d4, s4) \<Rightarrow>
                                         (Return (map snd d4), s4))))))))"

text \<open>\<open>report()\<close>.\<close>

definition report :: "pstate \<Rightarrow> nat \<times> errorMsg list \<times> string list" where
  "report s = (length (errors s), errors s, missing s)"

section \<open>The collaborators, modelled from the spec\<close>

text \<open>
  Modelled from the spec: \<open>DNodeUtils.dirName\<close>, which is not under \<open>src/\<close>.  The spec:
  the expected parent path is the stem with its last dot-segment removed.
\<close>

definition dirName_spec :: "string \<Rightarrow> string" where
  "dirName_spec s = dot_join (butlast (split_dot s))"

text \<open>
  Modelled from the spec: the glob predicate \<open>matches(patterns, path)\<close>, an external
  collaborator.  Only literal characters and \<open>*\<close> (any run of characters other than a
  slash) are read; the parser's one pattern is \<open>root.*\<close>.
\<close>

fun glob :: "string \<Rightarrow> string \<Rightarrow> bool" where
  "glob [] s = (s = [])"
| "glob (c # cs) [] = (c = CHR ''*'' \<and> glob cs [])"
| "glob (c # cs) (d # ds) =
     (if c = CHR ''*'' then glob cs (d # ds) \<or> (d \<noteq> CHR ''/'' \<and> glob (c # cs) ds)
      else c = d \<and> glob cs ds)"

definition globMatch_spec :: "string list \<Rightarrow> string \<Rightarrow> bool" where
  "globMatch_spec pats fp = list_ex (\<lambda>pat. glob pat fp) pats"

text \<open>
  Modelled from the spec: \<open>DNodeUtils.findClosestParent\<close>, which is not under \<open>src/\<close>.
  The spec: trim trailing segments off the expected path, one at a time, and look each
  result up in the nodes indexed so far; the orphan's expected path is its file name.
  When no ancestor is indexed the closest parent is the entry \<open>root\<close>.
\<close>

fun closest_in :: "NoteDict \<Rightarrow> string list \<Rightarrow> ref option" where
  "closest_in d [] = (case map_of d ''root'' of None \<Rightarrow> None | Some r \<Rightarrow> r)"
| "closest_in d (x # xs) =
     (case map_of d (dot_join (rev (x # xs))) of
        Some (Some r) \<Rightarrow> Some r
      | _ \<Rightarrow> closest_in d xs)"

definition findClosestParent_spec :: "store \<Rightarrow> ref \<Rightarrow> NoteDict \<Rightarrow> ref option" where
  "findClosestParent_spec h n d = closest_in d (rev (butlast (split_dot (fname_key h n))))"

text \<open>
  Modelled from the spec: \<open>NoteUtils.createStubNotes\<close>, which is not under \<open>src/\<close>.  The
  spec: one new placeholder note per absent path segment between the closest ancestor and
  the orphan, titled with the segment and with empty body and description, each attached
  to the previous one with \<open>addChild\<close>, and the orphan attached to the last.
\<close>

definition stub_opts :: "string list \<Rightarrow> INoteOpts" where
  "stub_opts segs =
     \<lparr> o_id = None, o_title = last segs, o_desc = Some [], o_type = ''note'',
       o_updated = None, o_created = None, o_parent = None, o_children = None,
       o_body = Some [], o_parentId = None, o_childrenIds = None,
       o_schemaId = None, o_fname = Some (dot_join segs) \<rparr>"

fun make_stubs :: "string list \<Rightarrow> string list \<Rightarrow> ref \<Rightarrow> store \<Rightarrow> ref list \<times> ref \<times> store" where
  "make_stubs pre [] par h = ([], par, h)"
| "make_stubs pre (seg # segs) par h =
     (let (n, h1) = new_Note (stub_opts (pre @ [seg])) h;
          h2 = addChild par n h1;
          (ns, l, h3) = make_stubs (pre @ [seg]) segs n h2
      in (n # ns, l, h3))"

definition createStubNotes_spec :: "ref option \<Rightarrow> ref \<Rightarrow> store \<Rightarrow> ref list outcome \<times> store" where
  "createStubNotes_spec from' to' h =
     (case from' of
        None \<Rightarrow> (Throw TypeError, h)
      | Some f \<Rightarrow>
          (let toSegs = split_dot (fname_key h to');
               k = (if fname_key h f = ''root'' then 0 else length (split_dot (fname_key h f)));
               (stubs, l, h1) = make_stubs (take k toSegs) (drop k (butlast toSegs)) f h
           in (Return stubs, addChild l to' h1)))"

text \<open>
  A materializer for the worked examples: it fails on the listed files and otherwise
  returns props whose title is the last segment of the stem and whose name is the stem.
\<close>

definition sample_md :: "string list \<Rightarrow> string \<Rightarrow> string \<Rightarrow> string + INoteOpts" where
  "sample_md bad root fp =
     (if fp \<in> set bad then Inl ''bad front matter''
      else Inr \<lparr> o_id = Some (parse_name fp), o_title = last (split_dot (parse_name fp)),
                 o_desc = None, o_type = ''note'', o_updated = None, o_created = None,
                 o_parent = None, o_children = None, o_body = None, o_parentId = None,
                 o_childrenIds = None, o_schemaId = None, o_fname = Some (parse_name fp) \<rparr>)"

definition spec_collab :: "string list \<Rightarrow> collab" where
  "spec_collab bad =
     \<lparr> mdFile2NodeProps = sample_md bad, globMatch = globMatch_spec, dirName = dirName_spec,
       findClosestParent = findClosestParent_spec, createStubNotes = createStubNotes_spec \<rparr>"

section \<open>The schema file resolver: \<open>FileParserUtils\<close>\<close>

text \<open>
  The record types and \<open>Schema.createRawProps\<close>, \<open>SchemaUtils.fname\<close> are not under
  \<open>src/\<close>.  The records hold the fields the resolver reads and writes (\<open>sid\<close>, \<open>sfname\<close>,
  \<open>sparent\<close>, \<open>schildren\<close> are the keys \<open>id\<close>, \<open>fname\<close>, \<open>parent\<close>, \<open>children\<close>); the two
  functions, and reading and parsing a YAML file, are parameters.
\<close>

record SchemaData =
  pattern :: "string option"

record SchemaRawProps =
  sid :: string
  sfname :: string
  data :: SchemaData
  sparent :: "string option"
  schildren :: "string list"

record SchemaRawOpts =
  r_id :: string
  r_fname :: "string option"
  r_pattern :: "string option"
  r_parent :: "string option"
  r_children :: "string list option"

text \<open>What \<open>YAML.parse\<close> returns: an array, an object with optional keys, null or a scalar.\<close>

datatype yaml =
    YArray "SchemaRawOpts list"
  | YObject "string list option" "SchemaRawOpts list option"
  | YNull
  | YScalar string

record schema_env =
  readYaml :: "string \<Rightarrow> string \<Rightarrow> string + yaml"
  createRawProps :: "SchemaRawOpts \<Rightarrow> SchemaRawProps"
  SchemaUtils_fname :: "string \<Rightarrow> string"

text \<open>
  Import cycles are not detected, so resolution may never return.  \<open>parseSchemaFile\<close>
  carries fuel, one unit per file opened; \<open>None\<close> is running out of it.
\<close>

type_synonym schema_result = "SchemaRawProps list outcome option"

text \<open>
  \<open>_.flatMap(imports, (ent) => FileParserUtils.parseSchemaFile(`${ent}.schema.yml`, { root }))\<close>,
  with the recursive call as the argument \<open>parseFile\<close>.
\<close>

fun flatMap_files :: "(string \<Rightarrow> schema_result) \<Rightarrow> string list \<Rightarrow> schema_result" where
  "flatMap_files parseFile [] = Some (Return [])"
| "flatMap_files parseFile (ent # ents) =
     (case parseFile (ent @ ''.schema.yml'') of
        None \<Rightarrow> None
      | Some (Throw x) \<Rightarrow> Some (Throw x)
      | Some (Return rs) \<Rightarrow>
          (case flatMap_files parseFile ents of
             None \<Rightarrow> None
           | Some (Throw x) \<Rightarrow> Some (Throw x)
           | Some (Return rs') \<Rightarrow> Some (Return (rs @ rs'))))"

text \<open>
  The callback of \<open>schemasFromImport.map\<close>.  \<open>ent.data.pattern || ent.id\<close> takes the id
  for an undefined and for an empty pattern; the pattern is set before the id is changed.
\<close>

definition namespace_import :: "schema_env \<Rightarrow> string \<Rightarrow> SchemaRawProps \<Rightarrow> SchemaRawProps" where
  "namespace_import E fname' ent =
     (let domain = SchemaUtils_fname E (sfname ent)
      in ent\<lparr> data := (data ent)\<lparr>pattern :=
                  (case pattern (data ent) of
                     None \<Rightarrow> Some (sid ent)
                   | Some p \<Rightarrow> if p = [] then Some (sid ent) else Some p)\<rparr>,
               sid := domain @ ''.'' @ sid ent,
               sfname := fname',
               sparent := None,
               schildren := map (\<lambda>c. domain @ ''.'' @ c) (schildren ent) \<rparr>)"

text \<open>
  \<open>const { imports, schemas } = schema\<close> throws on null; \<open>_.flatMap\<close> takes an undefined
  \<open>imports\<close> for an empty list; \<open>schemas.map\<close> throws when \<open>schemas\<close> is undefined.
\<close>

definition parseSchemaVersion1 ::
  "schema_env \<Rightarrow> (string \<Rightarrow> schema_result) \<Rightarrow> yaml \<Rightarrow> string \<Rightarrow> schema_result" where
  "parseSchemaVersion1 E parseFile schema fname' =
     (case schema of
        YNull \<Rightarrow> Some (Throw TypeError)
      | _ \<Rightarrow>
          (let (imports, schemas) = (case schema of YObject i s \<Rightarrow> (i, s) | _ \<Rightarrow> (None, None))
           in case flatMap_files parseFile (dflt [] imports) of
                None \<Rightarrow> None
              | Some (Throw x) \<Rightarrow> Some (Throw x)
              | Some (Return fromImport) \<Rightarrow>
                  (let schemasFromImport = map (namespace_import E fname') fromImport
                   in case schemas of
                        None \<Rightarrow> Some (Throw TypeError)
                      | Some ss \<Rightarrow>
                          Some (Return (schemasFromImport
                                  @ map (\<lambda>o'. createRawProps E (o'\<lparr>r_fname := Some fname'\<rparr>))
                                      ss)))))"

text \<open>\<open>const version = _.isArray(schemaOpts) ? 0 : 1\<close>.\<close>

primrec parseSchemaFile :: "schema_env \<Rightarrow> nat \<Rightarrow> string \<Rightarrow> string \<Rightarrow> schema_result" where
  "parseSchemaFile E 0 root fpath' = None"
| "parseSchemaFile E (Suc k) root fpath' =
     (let fname' = parse_name fpath'
      in case readYaml E root fpath' of
           Inl err \<Rightarrow> Some (Throw (CollabError err))
         | Inr schemaOpts \<Rightarrow>
             (case schemaOpts of
                YArray os \<Rightarrow>
                  Some (Return (map (\<lambda>o'. createRawProps E (o'\<lparr>r_fname := Some fname'\<rparr>)) os))
              | _ \<Rightarrow> parseSchemaVersion1 E (parseSchemaFile E k root) schemaOpts fname'))"

text \<open>
  Modelled from the spec: \<open>Schema.createRawProps\<close>, which is not under \<open>src/\<close>, for the
  worked examples.  The spec's normalized record: the entry's id, file name, pattern and
  children, and a null parent.
\<close>

definition createRawProps_spec :: "SchemaRawOpts \<Rightarrow> SchemaRawProps" where
  "createRawProps_spec o' =
     \<lparr> sid = r_id o', sfname = dflt [] (r_fname o'), data = \<lparr> pattern = r_pattern o' \<rparr>,
       sparent = None, schildren = dflt [] (r_children o') \<rparr>"

text \<open>
  A file system for the worked examples: \<open>shared.schema.yml\<close> is a version-0 file,
  \<open>domain.schema.yml\<close> a version-1 file that imports it, \<open>top.schema.yml\<close> a version-1
  file that imports both, \<open>broken.schema.yml\<close> imports a file that does not exist,
  \<open>loop.schema.yml\<close> imports itself.  Its \<open>SchemaUtils.fname\<close> takes the name up to the
  first dot.
\<close>

definition sample_files :: "string \<Rightarrow> string \<Rightarrow> string + yaml" where
  "sample_files root fp =
     (if fp = ''shared.schema.yml''
      then Inr (YArray [\<lparr> r_id = ''x'', r_fname = None, r_pattern = None, r_parent = None,
                          r_children = Some [''y''] \<rparr>,
                        \<lparr> r_id = ''y'', r_fname = None, r_pattern = Some ''why'',
                          r_parent = None, r_children = None \<rparr>])
      else if fp = ''domain.schema.yml''
      then Inr (YObject (Some [''shared''])
                  (Some [\<lparr> r_id = ''domain'', r_fname = None, r_pattern = None,
                           r_parent = None, r_children = Some [''shared.x''] \<rparr>]))
      else if fp = ''top.schema.yml''
      then Inr (YObject (Some [''domain'', ''shared''])
                  (Some [\<lparr> r_id = ''top'', r_fname = None, r_pattern = None,
                           r_parent = None, r_children = None \<rparr>]))
      else if fp = ''broken.schema.yml''
      then Inr (YObject (Some [''shared'', ''nofile'', ''loop'']) (Some []))
      else if fp = ''loop.schema.yml''
      then Inr (YObject (Some [''loop'']) (Some []))
      else Inl ''ENOENT'')"

definition sample_env :: schema_env where
  "sample_env =
     \<lparr> readYaml = sample_files, createRawProps = createRawProps_spec,
       SchemaUtils_fname = takeWhile (\<lambda>c. c \<noteq> CHR ''.'') \<rparr>"

section \<open>Notions used in the statements\<close>

text \<open>
  \<open>linked h up ns\<close>: the notes \<open>ns\<close> form a chain of the tree, each one's parent being
  the one before it, and the first one's parent being \<open>up\<close>.
\<close>

fun linked :: "store \<Rightarrow> ref option \<Rightarrow> ref list \<Rightarrow> bool" where
  "linked h up [] = True"
| "linked h up (n # ns) = (parent (h ! n) = up \<and> linked h (Some n) ns)"

text \<open>A chain of notes with the given titles, each attached to the one before by \<open>addChild\<close>.\<close>

definition titled :: "string \<Rightarrow> INoteOpts" where
  "titled t =
     \<lparr> o_id = None, o_title = t, o_desc = None, o_type = ''note'', o_updated = None,
       o_created = None, o_parent = None, o_children = None, o_body = None,
       o_parentId = None, o_childrenIds = None, o_schemaId = None, o_fname = None \<rparr>"

definition chain_of_titles :: "string list \<Rightarrow> store" where
  "chain_of_titles ts =
     foldl (\<lambda>h i. addChild i (Suc i) h) (map (\<lambda>t. Note_ctor (titled t)) ts)
       [0..<length ts - 1]"

text \<open>The options object the level loop passes to \<open>toNode\<close>.\<close>

definition topts :: "FileParserProps \<Rightarrow> ToNodeOpts" where
  "topts fopts = \<lparr> t_errorOnEmpty = Some (errorOnEmpty fopts), t_isRoot = None,
                   t_errorOnBadParse = Some (errorOnBadParse fopts) \<rparr>"

text \<open>
  The invariant of the node model, \<open>child_once\<close>: a note whose parent is \<open>p\<close> occurs
  exactly once among the children of \<open>p\<close>.  \<open>children_back\<close> is its converse (every
  child of \<open>p\<close> names \<open>p\<close> as its parent), and \<open>tree_ok\<close> is both; all references
  point into the store.
\<close>

definition child_once :: "store \<Rightarrow> bool" where
  "child_once h \<longleftrightarrow>
     (\<forall>n < length h. \<forall>p. parent (h ! n) = Some p
        \<longrightarrow> p < length h \<and> count_list (children (h ! p)) n = 1)"

definition children_back :: "store \<Rightarrow> bool" where
  "children_back h \<longleftrightarrow>
     (\<forall>p < length h. \<forall>c \<in> set (children (h ! p)). c < length h \<and> parent (h ! c) = Some p)"

definition tree_ok :: "store \<Rightarrow> bool" where
  "tree_ok h \<longleftrightarrow> child_once h \<and> children_back h"

text \<open>Every note of the dictionary is an object of the store.\<close>

definition dict_ok :: "store \<Rightarrow> NoteDict \<Rightarrow> bool" where
  "dict_ok h d \<longleftrightarrow> (\<forall>(k, v) \<in> set d. \<forall>r. v = Some r \<longrightarrow> r < length h)"

text \<open>
  What the builder relies on in the two stub collaborators: the closest parent is a note
  of the dictionary, and stub synthesis, given a detached orphan in a well-formed store,
  leaves a well-formed store that has lost no object, and returns objects of it.
\<close>

definition stubs_ok :: "collab \<Rightarrow> bool" where
  "stubs_ok P \<longleftrightarrow>
     (\<forall>h n d f. findClosestParent P h n d = Some f \<longrightarrow> Some f \<in> snd ` set d)
   \<and> (\<forall>cp n h r h'.
         tree_ok h \<longrightarrow> n < length h \<longrightarrow> parent (h ! n) = None
         \<longrightarrow> (\<forall>f. cp = Some f \<longrightarrow> f < length h)
         \<longrightarrow> createStubNotes P cp n h = (r, h')
         \<longrightarrow> tree_ok h' \<and> length h \<le> length h'
             \<and> (\<forall>stubs. r = Return stubs \<longrightarrow> (\<forall>x \<in> set stubs. x < length h')))"

text \<open>
  \<open>resolves E root fp out\<close>: resolving the schema file \<open>fp\<close> returns the records \<open>out\<close>,
  that is, \<open>parseSchemaFile\<close> does so for some bound on the number of nested files.
\<close>

definition resolves :: "schema_env \<Rightarrow> string \<Rightarrow> string \<Rightarrow> SchemaRawProps list \<Rightarrow> bool" where
  "resolves E root fp out \<longleftrightarrow> (\<exists>k. parseSchemaFile E k root fp = Some (Return out))"

text \<open>
  What the builder relies on in stub synthesis for keeping stubs and files apart: the
  store loses no object, and the stubs returned are objects that stub synthesis itself
  has allocated.
\<close>

definition stubs_fresh :: "collab \<Rightarrow> bool" where
  "stubs_fresh P \<longleftrightarrow>
     (\<forall>cp n h r h'. createStubNotes P cp n h = (r, h')
        \<longrightarrow> length h \<le> length h'
          \<and> (\<forall>stubs. r = Return stubs \<longrightarrow> (\<forall>x \<in> set stubs. length h \<le> x \<and> x < length h')))"

text \<open>
  For the worked examples: the constructor's default options, both flags relaxed, and
  the state of a run, with both flags relaxed, after \<open>root.md\<close>, \<open>a.md\<close> and \<open>a.x.md\<close>.
\<close>

definition optsD :: FileParserProps where
  "optsD = FileParser_opts \<lparr> o_errorOnEmpty = None, o_errorOnBadParse = None \<rparr>"

definition optsF :: FileParserProps where
  "optsF = FileParser_opts \<lparr> o_errorOnEmpty = Some False, o_errorOnBadParse = Some False \<rparr>"

definition after_a_x :: pstate where
  "after_a_x = snd (parse (spec_collab []) ''ws'' optsF [''root.md'', ''a.md'', ''a.x.md'']
                      FileParser_init)"

section \<open>Properties of the node model\<close>

lemma dflt_simps [simp]: "dflt d None = d" "dflt d (Some x) = x"
  by (simp_all add: dflt_def)

text \<open>
  Claim C10.  For every options value, \<open>new Note(opts)\<close> is detached: its parent is null and
  its children list is empty whatever \<open>opts\<close> supplies for \<open>parent\<close> and \<open>children\<close>, while
  \<open>parentId\<close> and \<open>childrenIds\<close> of \<open>opts\<close> are kept (or defaulted when absent).  The
  note is linked only by a later \<open>addChild\<close>, which sets its parent.
\<close>

theorem Note_ctor_detached:
  "parent (Note_ctor props) = None
   \<and> children (Note_ctor props) = []
   \<and> parentId (Note_ctor props) = dflt None (o_parentId props)
   \<and> childrenIds (Note_ctor props) = dflt [] (o_childrenIds props)
   \<and> parent (Note_ctor (props\<lparr>o_parent := Some (Some q), o_children := Some cs\<rparr>)) = None
   \<and> children (Note_ctor (props\<lparr>o_parent := Some (Some q), o_children := Some cs\<rparr>)) = []
   \<and> new_Note props h = (length h, h @ [Note_ctor props])
   \<and> parent (snd (new_Note props h) ! fst (new_Note props h)) = None
   \<and> parent (addChild p (fst (new_Note props h)) (snd (new_Note props h))
               ! fst (new_Note props h)) = Some p"
  by (simp add: Note_ctor_def DNode_ctor_def DNode.extend_def new_Note_def addChild_def Let_def)

text \<open>
  Claim C9.  \<open>toRawProps\<close> yields the record of the nine scalar and identifier fields: it
  does not depend on the \<open>parent\<close> and \<open>children\<close> references (nor on \<open>schemaId\<close>), and
  flattening, reconstructing a note from the record and flattening again gives the same
  record.
\<close>

theorem toRawProps_roundtrip:
  "toRawProps (Note_ctor (opts_of_raw (toRawProps n))) = toRawProps n
   \<and> toRawProps (n\<lparr>parent := p, children := cs\<rparr>) = toRawProps n
   \<and> toRawProps n =
       \<lparr> id' = id' n, title = title n, desc = desc n, type = type n,
         updated = updated n, created = created n, body = body n,
         parentId = parentId n, childrenIds = childrenIds n \<rparr>"
  by (simp add: toRawProps_def Note_ctor_def DNode_ctor_def DNode.extend_def opts_of_raw_def)

text \<open>
  Claim C5, amended.  \<open>path\<close> is computed from the store at each call: it is the note's
  title when the parent is null or the parent's title is \<open>root\<close>, and the parent's path,
  a dot and the title otherwise.  For a note below a parentless node titled \<open>root\<close>, it
  is the dot-join of the titles from that root (exclusive) down to the note, provided no
  note strictly between them is itself titled \<open>root\<close>.
\<close>

lemma path_step:
  "parent (h ! n) = Some p \<Longrightarrow> title (h ! p) \<noteq> ''root'' \<Longrightarrow> path h p = Some s
   \<Longrightarrow> path h n = Some (s @ ''.'' @ title (h ! n))"
  by (subst path.simps) simp

lemma path_below_root:
  "parent (h ! n) = Some p \<Longrightarrow> title (h ! p) = ''root'' \<Longrightarrow> path h n = Some (title (h ! n))"
  by (subst path.simps) simp

lemma path_top: "parent (h ! n) = None \<Longrightarrow> path h n = Some (title (h ! n))"
  by (subst path.simps) simp

lemma path_chain:
  "linked h up (n # ns) \<Longrightarrow> path h n = Some s
   \<Longrightarrow> \<forall>m \<in> set (butlast (n # ns)). title (h ! m) \<noteq> ''root''
   \<Longrightarrow> path h (last (n # ns)) = Some (dot_join (s # map (\<lambda>m. title (h ! m)) ns))"
proof (induction ns arbitrary: n s up)
  case Nil
  then show ?case by simp
next
  case (Cons m ms)
  from Cons.prems have pm: "parent (h ! m) = Some n" and lk: "linked h (Some n) (m # ms)"
    by simp_all
  from Cons.prems have tn: "title (h ! n) \<noteq> ''root''" by simp
  from Cons.prems have rest: "\<forall>x \<in> set (butlast (m # ms)). title (h ! x) \<noteq> ''root''"
    by (simp split: if_splits)
  have "path h m = Some (s @ ''.'' @ title (h ! m))"
    using pm tn Cons.prems(2) by (rule path_step)
  from Cons.IH [OF lk this rest]
  have "path h (last (m # ms))
          = Some (dot_join ((s @ ''.'' @ title (h ! m)) # map (\<lambda>m. title (h ! m)) ms))" .
  moreover have "dot_join ((s @ ''.'' @ title (h ! m)) # map (\<lambda>m. title (h ! m)) ms)
          = dot_join (s # map (\<lambda>m. title (h ! m)) (m # ms))"
    by (cases ms) simp_all
  ultimately show ?case by simp
qed

theorem path_dot_join:
  assumes "linked h None (r # n # ns)"
    and "title (h ! r) = ''root''"
    and "\<forall>m \<in> set (butlast (n # ns)). title (h ! m) \<noteq> ''root''"
  shows "path h (last (n # ns)) = Some (dot_join (map (\<lambda>m. title (h ! m)) (n # ns)))
    \<and> path h x =
        (case parent (h ! x) of
           None \<Rightarrow> Some (title (h ! x))
         | Some p \<Rightarrow>
             if title (h ! p) = ''root'' then Some (title (h ! x))
             else map_option (\<lambda>pp. pp @ ''.'' @ title (h ! x)) (path h p))"
proof
  from assms(1) have pn: "parent (h ! n) = Some r" and lk: "linked h (Some r) (n # ns)"
    by simp_all
  have "path h n = Some (title (h ! n))"
    using pn assms(2) by (rule path_below_root)
  from path_chain [OF lk this assms(3)]
  show "path h (last (n # ns)) = Some (dot_join (map (\<lambda>m. title (h ! m)) (n # ns)))"
    by simp
next
  show "path h x =
        (case parent (h ! x) of
           None \<Rightarrow> Some (title (h ! x))
         | Some p \<Rightarrow>
             if title (h ! p) = ''root'' then Some (title (h ! x))
             else map_option (\<lambda>pp. pp @ ''.'' @ title (h ! x)) (path h p))"
    by (subst path.simps) (simp split: option.splits add: map_option_case)
qed

theorem path_dot_join_witness:
  "linked (chain_of_titles [''root'', ''a'', ''b'', ''c'']) None [0, 1, 2, 3]
   \<and> title (chain_of_titles [''root'', ''a'', ''b'', ''c''] ! 0) = ''root''
   \<and> path (chain_of_titles [''root'', ''a'', ''b'', ''c'']) 3 = Some ''a.b.c''"
proof -
  let ?h = "chain_of_titles [''root'', ''a'', ''b'', ''c'']"
  have 1: "linked ?h None [0, 1, 2, 3]" by code_simp
  have 2: "title (?h ! 0) = ''root''" by code_simp
  have 3: "\<forall>m \<in> set (butlast [1, 2, 3::nat]). title (?h ! m) \<noteq> ''root''" by code_simp
  have 4: "dot_join (map (\<lambda>m. title (?h ! m)) [1, 2, 3]) = ''a.b.c''" by code_simp
  from path_dot_join [OF 1 2 3, THEN conjunct1] 4 have "path ?h 3 = Some ''a.b.c''" by simp
  with 1 2 show ?thesis by simp
qed

text \<open>
  The claim as stated fails where a note between the root and \<open>n\<close> is titled \<open>root\<close>
  (the files \<open>a.root.md\<close> and \<open>a.root.c.md\<close> give such a tree): the path restarts below it.
\<close>

theorem path_dot_join_counterexample:
  "linked (chain_of_titles [''root'', ''a'', ''root'', ''c'']) None [0, 1, 2, 3]
   \<and> title (chain_of_titles [''root'', ''a'', ''root'', ''c''] ! 0) = ''root''
   \<and> dot_join (map (\<lambda>m. title (chain_of_titles [''root'', ''a'', ''root'', ''c''] ! m))
        [1, 2, 3]) = ''a.root.c''
   \<and> path (chain_of_titles [''root'', ''a'', ''root'', ''c'']) 3 = Some ''c''"
  by code_simp

section \<open>Properties of \<open>getFileMeta\<close> and the empty result\<close>

text \<open>\<open>fileMetaDict[lvl]\<close> holds the files of that level, in input order, or is undefined.\<close>

lemma map_of_map_upd:
  "map_of (map (\<lambda>(k, ms). if k = l then (k, f ms) else (k, ms)) d) lvl
     = (if lvl = l then map_option f (map_of d l) else map_of d lvl)"
  by (induction d) auto

lemma map_of_meta_push:
  "map_of (meta_push l m d) lvl
     = (if lvl = l then Some (dflt [] (map_of d l) @ [m]) else map_of d lvl)"
  by (cases "map_of d l") (auto simp: meta_push_def map_of_map_upd map_add_def split: option.splits)

lemma map_of_foldl_meta_push:
  "map_of (foldl (\<lambda>d fp. meta_push (level fp) (file_meta fp) d) d files) lvl
     = (if filter (\<lambda>f. level f = lvl) files = [] then map_of d lvl
        else Some (dflt [] (map_of d lvl) @ map file_meta (filter (\<lambda>f. level f = lvl) files)))"
proof (induction files arbitrary: d)
  case Nil
  then show ?case by simp
next
  case (Cons fp fps)
  show ?case
    by (simp add: Cons.IH map_of_meta_push)
qed

lemma map_of_getFileMeta:
  "map_of (getFileMeta files) lvl
     = (if filter (\<lambda>f. level f = lvl) files = [] then None
        else Some (map file_meta (filter (\<lambda>f. level f = lvl) files)))"
  by (simp add: getFileMeta_def map_of_foldl_meta_push)

lemma find_root_md:
  "find (\<lambda>n. fpath n = ''root.md'') (map file_meta fs) = None \<longleftrightarrow> ''root.md'' \<notin> set fs"
  by (induction fs) (auto simp: file_meta_def)

lemma level_root_md: "level ''root.md'' = 1" "parse_name ''root.md'' = ''root''"
  by code_simp+

lemma no_root_stem:
  "\<forall>f \<in> set files. level f = 1 \<longrightarrow> parse_name f \<noteq> ''root'' \<Longrightarrow> ''root.md'' \<notin> set files"
  using level_root_md by auto

text \<open>
  Claim C1, amended.  If the file list is empty, or it holds at least one level-1 file and
  no file \<open>root.md\<close> (as when no level-1 file has stem \<open>root\<close>), \<open>parse\<close> returns an
  empty result, throws nothing and leaves the parser's state as it was.
\<close>

theorem parse_EMPTY_INPUT:
  assumes "files = [] \<or> (\<exists>f \<in> set files. level f = 1)"
    and "''root.md'' \<notin> set files
         \<or> (\<forall>f \<in> set files. level f = 1 \<longrightarrow> parse_name f \<noteq> ''root'')"
  shows "parse P root fopts files s = (Return [], s)"
proof (cases "files = []")
  case True
  then show ?thesis by (simp add: parse_def)
next
  case False
  from assms(2) have nr: "''root.md'' \<notin> set files"
    using no_root_stem by blast
  from False assms(1) have ne: "filter (\<lambda>f. level f = 1) files \<noteq> []"
    by (auto simp: filter_empty_conv)
  have nf: "find (\<lambda>n. fpath n = ''root.md'') (map file_meta (filter (\<lambda>f. level f = 1) files))
              = None"
    using nr by (simp add: find_root_md)
  show ?thesis
    using False ne nf by (simp add: parse_def map_of_getFileMeta Let_def)
qed

theorem parse_EMPTY_INPUT_witness:
  "level ''a.md'' = 1
   \<and> parse (spec_collab []) ''ws'' optsD [''a.md'', ''a.b.md'', ''notes/root.md'']
         FileParser_init = (Return [], FileParser_init)
   \<and> parse (spec_collab []) ''ws'' optsD [''a.md'', ''a.b.md''] FileParser_init
       = (Return [], FileParser_init)"
proof -
  have l: "level ''a.md'' = 1" by code_simp
  have 1: "[''a.md'', ''a.b.md'', ''notes/root.md''] = []
           \<or> (\<exists>f \<in> set [''a.md'', ''a.b.md'', ''notes/root.md'']. level f = 1)"
    using l by simp
  have 2: "''root.md'' \<notin> set [''a.md'', ''a.b.md'', ''notes/root.md'']
           \<or> (\<forall>f \<in> set [''a.md'', ''a.b.md'', ''notes/root.md''].
                 level f = 1 \<longrightarrow> parse_name f \<noteq> ''root'')"
    by simp
  have 3: "[''a.md'', ''a.b.md''] = [] \<or> (\<exists>f \<in> set [''a.md'', ''a.b.md'']. level f = 1)"
    using l by simp
  have 4: "''root.md'' \<notin> set [''a.md'', ''a.b.md'']
           \<or> (\<forall>f \<in> set [''a.md'', ''a.b.md'']. level f = 1 \<longrightarrow> parse_name f \<noteq> ''root'')"
    by code_simp
  from parse_EMPTY_INPUT [OF 1 2] parse_EMPTY_INPUT [OF 3 4] l show ?thesis by simp
qed

text \<open>
  The claim as stated fails twice.  With two level-1 files of stem \<open>root\<close> the first
  \<open>root.md\<close> is taken and the result is not empty; with files but none of level 1,
  \<open>fileMetaDict[1]\<close> is undefined and \<open>.find\<close> on it throws a \<open>TypeError\<close>.
\<close>

theorem parse_EMPTY_INPUT_counterexample:
  "fst (parse (spec_collab []) ''ws'' optsD [''root.md'', ''notes/root.md''] FileParser_init)
     = Return [Some 1]
   \<and> level ''root.md'' = 1 \<and> parse_name ''root.md'' = ''root''
   \<and> level ''notes/root.md'' = 1 \<and> parse_name ''notes/root.md'' = ''root''
   \<and> level ''a.b.md'' = 2
   \<and> fst (parse (spec_collab []) ''ws'' optsD [''a.b.md''] FileParser_init) = Throw TypeError"
  by code_simp

section \<open>The store invariant\<close>

lemma length_addChild [simp]: "length (addChild p c h) = length h"
  by (simp add: addChild_def Let_def)

lemma parent_addChild:
  "m < length h \<Longrightarrow> parent (addChild p c h ! m) = (if m = c then Some p else parent (h ! m))"
  by (cases "p < length h"; cases "c < length h")
    (auto simp: addChild_def Let_def nth_list_update)

lemma children_addChild:
  "m < length h \<Longrightarrow>
   children (addChild p c h ! m) = (if m = p then children (h ! p) @ [c] else children (h ! m))"
  by (cases "p < length h"; cases "c < length h")
    (auto simp: addChild_def Let_def nth_list_update)

lemma child_onceD:
  "child_once h \<Longrightarrow> n < length h \<Longrightarrow> parent (h ! n) = Some q
   \<Longrightarrow> q < length h \<and> count_list (children (h ! q)) n = 1"
  unfolding child_once_def by blast

lemma children_backD:
  "children_back h \<Longrightarrow> q < length h \<Longrightarrow> x \<in> set (children (h ! q))
   \<Longrightarrow> x < length h \<and> parent (h ! x) = Some q"
  unfolding children_back_def by blast

lemma child_once_addChild:
  assumes once: "child_once h" and bk: "children_back h"
    and p: "p < length h" and c: "c < length h" and det: "parent (h ! c) = None"
  shows "child_once (addChild p c h)"
  unfolding child_once_def
proof (intro allI impI)
  fix n q
  assume n: "n < length (addChild p c h)" and pq: "parent (addChild p c h ! n) = Some q"
  from n have n': "n < length h" by simp
  show "q < length (addChild p c h) \<and> count_list (children (addChild p c h ! q)) n = 1"
  proof (cases "n = c")
    case True
    from pq n' True have q: "q = p" by (simp add: parent_addChild)
    have "c \<notin> set (children (h ! p))"
    proof
      assume "c \<in> set (children (h ! p))"
      from children_backD [OF bk p this] det show False by simp
    qed
    then have "count_list (children (h ! p)) c = 0" by simp
    then show ?thesis using p q True by (simp add: children_addChild)
  next
    case False
    with pq n' have pn: "parent (h ! n) = Some q" by (simp add: parent_addChild)
    from child_onceD [OF once n' pn] have q: "q < length h"
      and cnt: "count_list (children (h ! q)) n = 1" by simp_all
    show ?thesis using q cnt False by (auto simp: children_addChild)
  qed
qed

lemma children_back_addChild:
  assumes bk: "children_back h"
    and p: "p < length h" and c: "c < length h" and det: "parent (h ! c) = None"
  shows "children_back (addChild p c h)"
  unfolding children_back_def
proof (intro allI impI ballI)
  fix q x
  assume q: "q < length (addChild p c h)" and x: "x \<in> set (children (addChild p c h ! q))"
  from q have q': "q < length h" by simp
  show "x < length (addChild p c h) \<and> parent (addChild p c h ! x) = Some q"
  proof (cases "x = c")
    case True
    have "q = p"
    proof (rule ccontr)
      assume "q \<noteq> p"
      with q' x have "x \<in> set (children (h ! q))" by (simp add: children_addChild)
      from children_backD [OF bk q' this] True det show False by simp
    qed
    with True c show ?thesis by (simp add: parent_addChild)
  next
    case False
    with q' x have "x \<in> set (children (h ! q))"
      by (simp add: children_addChild split: if_splits)
    from children_backD [OF bk q' this] have "x < length h" "parent (h ! x) = Some q"
      by simp_all
    with False show ?thesis by (simp add: parent_addChild)
  qed
qed

lemma tree_ok_addChild:
  "tree_ok h \<Longrightarrow> p < length h \<Longrightarrow> c < length h \<Longrightarrow> parent (h ! c) = None
   \<Longrightarrow> tree_ok (addChild p c h)"
  unfolding tree_ok_def by (simp add: child_once_addChild children_back_addChild)

lemma tree_ok_alloc:
  assumes ok: "tree_ok h" and px: "parent x = None" and cx: "children x = []"
  shows "tree_ok (h @ [x])"
proof -
  from ok have once: "child_once h" and bk: "children_back h"
    by (simp_all add: tree_ok_def)
  have "child_once (h @ [x])"
    unfolding child_once_def
  proof (intro allI impI)
    fix n q
    assume n: "n < length (h @ [x])" and pq: "parent ((h @ [x]) ! n) = Some q"
    from pq px have "n \<noteq> length h" by auto
    with n have n': "n < length h" by simp
    with pq have "parent (h ! n) = Some q" by (simp add: nth_append)
    from child_onceD [OF once n' this]
    show "q < length (h @ [x]) \<and> count_list (children ((h @ [x]) ! q)) n = 1"
      by (simp add: nth_append)
  qed
  moreover have "children_back (h @ [x])"
    unfolding children_back_def
  proof (intro allI impI ballI)
    fix q y
    assume q: "q < length (h @ [x])" and y: "y \<in> set (children ((h @ [x]) ! q))"
    from y cx have "q \<noteq> length h" by auto
    with q have q': "q < length h" by simp
    with y have "y \<in> set (children (h ! q))" by (simp add: nth_append)
    from children_backD [OF bk q' this]
    show "y < length (h @ [x]) \<and> parent ((h @ [x]) ! y) = Some q"
      by (simp add: nth_append)
  qed
  ultimately show ?thesis by (simp add: tree_ok_def)
qed

lemma Note_ctor_parent [simp]: "parent (Note_ctor props) = None" "children (Note_ctor props) = []"
  by (simp_all add: Note_ctor_def DNode_ctor_def DNode.extend_def)

lemma find_parent_Some:
  "find_parent h ps pp = Return (Some p) \<Longrightarrow> p \<in> set ps \<and> path h p = Some pp"
  by (induction ps) (auto split: option.splits if_splits)

lemma find_parent_None:
  "find_parent h ps pp = Return None \<Longrightarrow> \<forall>p \<in> set ps. \<exists>s. path h p = Some s \<and> s \<noteq> pp"
  by (induction ps) (auto split: option.splits if_splits)

text \<open>What \<open>toNode\<close> does to the store, case by case.\<close>

lemma make_note_store:
  assumes ok: "tree_ok (heap s)" and par: "\<And>p. par = Some p \<Longrightarrow> p < length (heap s)"
    and run: "make_note props par m s = (r, s')"
  shows "r = Return (Some (length (heap s)), m) \<and> tree_ok (heap s')
       \<and> length (heap s') = Suc (length (heap s))
       \<and> (\<forall>k < length (heap s). parent (heap s' ! k) = parent (heap s ! k))
       \<and> parent (heap s' ! length (heap s)) = par
       \<and> errors s' = errors s \<and> missing s' = missing s"
proof -
  let ?x = "Note_ctor (props\<lparr>o_parent := Some par, o_children := Some []\<rparr>)"
  let ?h1 = "heap s @ [?x]"
  have ok1: "tree_ok ?h1" using ok by (simp add: tree_ok_alloc)
  show ?thesis
  proof (cases par)
    case None
    with run have "r = Return (Some (length (heap s)), m)" and "s' = s\<lparr>heap := ?h1\<rparr>"
      by (simp_all add: make_note_def new_Note_def)
    with ok1 None show ?thesis by (simp add: nth_append)
  next
    case (Some p)
    from par [OF Some] have p: "p < length (heap s)" .
    from Some run have r: "r = Return (Some (length (heap s)), m)"
      and s': "s' = s\<lparr>heap := addChild p (length (heap s)) ?h1\<rparr>"
      by (simp_all add: make_note_def new_Note_def)
    have ok2: "tree_ok (addChild p (length (heap s)) ?h1)"
      by (rule tree_ok_addChild [OF ok1]) (use p in \<open>simp_all add: nth_append\<close>)
    show ?thesis
      unfolding r s' using ok2 Some
      by (simp add: parent_addChild nth_append)
  qed
qed

lemma toNode_Inl:
  assumes md: "mdFile2NodeProps P root (fpath ent) = Inl err"
    and run: "toNode P root ent parents opts s = (r, s')"
  shows "(r = Throw (CollabError err) \<and> s' = s)
       \<or> (r = Return (None, None) \<and> s' = s\<lparr>errors := errors s @ [BAD_PARSE ent err]\<rparr>)"
  using run unfolding toNode_def Let_def md
  by (simp split: if_splits)

lemma toNode_Inr_Throw:
  assumes md: "mdFile2NodeProps P root (fpath ent) = Inr props"
    and fp: "find_parent (heap s) parents (dirName P (prefix ent)) = Throw x"
    and run: "toNode P root ent parents opts s = (r, s')"
  shows "r = Throw x \<and> s' = s"
  using run unfolding toNode_def Let_def md fp
  by simp

lemma toNode_Inr_Return:
  assumes md: "mdFile2NodeProps P root (fpath ent) = Inr props"
    and fp: "find_parent (heap s) parents (dirName P (prefix ent)) = Return par"
    and run: "toNode P root ent parents opts s = (r, s')"
  shows "(par = None \<and> r = Throw (NoParentError (NO_PARENT_PATH ent (dirName P (prefix ent))))
            \<and> s' = s\<lparr>errors := errors s @ [NO_PARENT_PATH ent (dirName P (prefix ent))]\<rparr>)
       \<or> (par = None
            \<and> make_note props par (Some (dirName P (prefix ent)))
                 (s\<lparr>errors := errors s @ [NO_PARENT_PATH ent (dirName P (prefix ent))]\<rparr>)
                = (r, s'))
       \<or> make_note props par None s = (r, s')"
  using run unfolding toNode_def Let_def md fp
  by (simp split: if_splits)

lemma toNode_store:
  assumes ok: "tree_ok (heap s)" and ps: "\<forall>p \<in> set parents. p < length (heap s)"
    and run: "toNode P root ent parents opts s = (r, s')"
  shows "tree_ok (heap s') \<and> length (heap s) \<le> length (heap s')
       \<and> (\<forall>k < length (heap s). parent (heap s' ! k) = parent (heap s ! k))
       \<and> missing s' = missing s
       \<and> (\<forall>node m. r = Return (node, m) \<longrightarrow>
            (\<forall>n. node = Some n \<longrightarrow> n = length (heap s) \<and> length (heap s') = Suc n
               \<and> find_parent (heap s) parents (dirName P (prefix ent))
                    = Return (parent (heap s' ! n)))
          \<and> (m \<noteq> None \<longrightarrow> (\<exists>n. node = Some n \<and> parent (heap s' ! n) = None)))"
proof (cases "mdFile2NodeProps P root (fpath ent)")
  case (Inl err)
  from toNode_Inl [OF Inl run] ok show ?thesis by auto
next
  case (Inr props)
  show ?thesis
  proof (cases "find_parent (heap s) parents (dirName P (prefix ent))")
    case (Throw x)
    from toNode_Inr_Throw [OF Inr Throw run] ok show ?thesis by simp
  next
    case (Return par)
    have par: "\<And>p. par = Some p \<Longrightarrow> p < length (heap s)"
      using Return ps by (auto dest: find_parent_Some)
    let ?pp = "dirName P (prefix ent)"
    let ?s1 = "s\<lparr>errors := errors s @ [NO_PARENT_PATH ent ?pp]\<rparr>"
    from toNode_Inr_Return [OF Inr Return run]
    consider (thrown) "r = Throw (NoParentError (NO_PARENT_PATH ent ?pp))" "s' = ?s1"
      | (orphan) "par = None" "make_note props par (Some ?pp) ?s1 = (r, s')"
      | (plain) "make_note props par None s = (r, s')"
      by blast
    then show ?thesis
    proof cases
      case thrown
      with ok show ?thesis by simp
    next
      case orphan
      have ok1: "tree_ok (heap ?s1)" using ok by simp
      have par1: "\<And>p. par = Some p \<Longrightarrow> p < length (heap ?s1)" using par by simp
      from make_note_store [OF ok1 par1 orphan(2)]
      have "r = Return (Some (length (heap s)), Some ?pp)" "tree_ok (heap s')"
        "length (heap s') = Suc (length (heap s))"
        "\<forall>k < length (heap s). parent (heap s' ! k) = parent (heap s ! k)"
        "parent (heap s' ! length (heap s)) = par" "missing s' = missing s"
        by simp_all
      with Return orphan(1) show ?thesis by simp
    next
      case plain
      from make_note_store [OF ok par plain]
      have "r = Return (Some (length (heap s)), None)" "tree_ok (heap s')"
        "length (heap s') = Suc (length (heap s))"
        "\<forall>k < length (heap s). parent (heap s' ! k) = parent (heap s ! k)"
        "parent (heap s' ! length (heap s)) = par" "missing s' = missing s"
        by simp_all
      with Return show ?thesis by simp
    qed
  qed
qed

lemma toNode_parent:
  assumes run: "toNode P root ent parents opts s = (Return (Some n, m), s')"
  shows "n = length (heap s)
       \<and> find_parent (heap s) parents (dirName P (prefix ent)) = Return (parent (heap s' ! n))"
proof (cases "mdFile2NodeProps P root (fpath ent)")
  case (Inl err)
  from toNode_Inl [OF Inl run] show ?thesis by simp
next
  case (Inr props)
  show ?thesis
  proof (cases "find_parent (heap s) parents (dirName P (prefix ent))")
    case (Throw x)
    from toNode_Inr_Throw [OF Inr Throw run] show ?thesis by simp
  next
    case (Return par)
    have mk: "\<And>mm s0. make_note props par mm s0 = (Return (Some n, m), s')
        \<Longrightarrow> n = length (heap s0) \<and> parent (heap s' ! n) = par"
      by (cases par) (auto simp: make_note_def new_Note_def parent_addChild nth_append)
    from toNode_Inr_Return [OF Inr Return run] mk Return show ?thesis by fastforce
  qed
qed

text \<open>The level loop.\<close>

lemma parse_ent_cases:
  assumes run: "parse_ent P root fopts prev ent (d, s) = (r, d', s')"
  shows "(globMatch P [''root.*''] (fpath ent) \<and> r = Return None \<and> d' = d \<and> s' = s)
    \<or> (\<not> globMatch P [''root.*''] (fpath ent) \<and>
        ((\<exists>x. toNode P root ent prev (topts fopts) s = (Throw x, s') \<and> r = Throw x \<and> d' = d)
       \<or> (\<exists>node m. toNode P root ent prev (topts fopts) s = (Return (node, m), s')
             \<and> (m = None \<or> m = Some []) \<and> r = Return node \<and> d' = d)
       \<or> (\<exists>m. toNode P root ent prev (topts fopts) s = (Return (None, Some m), s')
             \<and> m \<noteq> [] \<and> r = Throw TypeError \<and> d' = d)
       \<or> (\<exists>n m s1 res h2. toNode P root ent prev (topts fopts) s = (Return (Some n, Some m), s1)
             \<and> m \<noteq> []
             \<and> createStubNotes P (findClosestParent P (heap s1) n d) n (heap s1) = (res, h2)
             \<and> ((\<exists>x. res = Throw x \<and> r = Throw x \<and> d' = d \<and> s' = s1\<lparr>heap := h2\<rparr>)
               \<or> (\<exists>stubs. res = Return stubs \<and> r = Return (Some n)
                     \<and> d' = index_nodes h2 stubs d
                     \<and> s' = s1\<lparr>heap := h2, missing := set_add m (missing s1)\<rparr>)))))"
proof (cases "globMatch P [''root.*''] (fpath ent)")
  case True
  with run show ?thesis by (simp add: parse_ent_def)
next
  case False
  obtain tr s1 where tn: "toNode P root ent prev (topts fopts) s = (tr, s1)"
    by (cases "toNode P root ent prev (topts fopts) s")
  show ?thesis
  proof (cases tr)
    case (Throw x)
    with run False tn show ?thesis by (simp add: parse_ent_def topts_def)
  next
    case (Return nm)
    obtain node m where nm: "nm = (node, m)" by (cases nm)
    show ?thesis
    proof (cases "m = None \<or> m = Some []")
      case True
      with run False tn Return nm show ?thesis
        by (auto simp: parse_ent_def topts_def)
    next
      case nonempty: False
      then obtain mm where m: "m = Some mm" and mm: "mm \<noteq> []" by (cases m) auto
      show ?thesis
      proof (cases node)
        case None
        with run False tn Return nm m mm show ?thesis
          by (simp add: parse_ent_def topts_def)
      next
        case (Some n)
        obtain res h2 where
          cs: "createStubNotes P (findClosestParent P (heap s1) n d) n (heap s1) = (res, h2)"
          by (cases "createStubNotes P (findClosestParent P (heap s1) n d) n (heap s1)")
        show ?thesis
        proof (cases res)
          case (Throw x)
          with run False tn Return nm m mm Some cs show ?thesis
            by (simp add: parse_ent_def topts_def Let_def)
        next
          case (Return stubs)
          with run False tn \<open>tr = Return nm\<close> nm m mm Some cs show ?thesis
            by (simp add: parse_ent_def topts_def Let_def)
        qed
      qed
    qed
  qed
qed

lemma dict_ok_mono: "dict_ok h d \<Longrightarrow> length h \<le> length h' \<Longrightarrow> dict_ok h' d"
  unfolding dict_ok_def by fastforce

lemma dict_ok_dict_set:
  "dict_ok h d \<Longrightarrow> (\<And>r. v = Some r \<Longrightarrow> r < length h) \<Longrightarrow> dict_ok h (dict_set k v d)"
  unfolding dict_ok_def dict_set_def
  by (auto split: option.splits if_splits)

lemma dict_ok_index_nodes:
  "dict_ok h d \<Longrightarrow> \<forall>n \<in> set ns. n < length h \<Longrightarrow> dict_ok h (index_nodes h' ns d)"
  unfolding index_nodes_def
proof (induction ns arbitrary: d)
  case Nil
  then show ?case by simp
next
  case (Cons n ns)
  have "dict_ok h (dict_set (fname_key h' n) (Some n) d)"
    by (rule dict_ok_dict_set) (use Cons.prems in simp_all)
  from Cons.IH [OF this] Cons.prems(2) show ?case by simp
qed

lemma dict_ok_Nil [simp]: "dict_ok h []"
  by (simp add: dict_ok_def)

lemma stubs_ok_closest:
  "stubs_ok P \<Longrightarrow> dict_ok h d \<Longrightarrow> findClosestParent P h1 n d = Some f \<Longrightarrow> f < length h"
  unfolding stubs_ok_def dict_ok_def by fastforce

lemma stubs_ok_create:
  "stubs_ok P \<Longrightarrow> tree_ok h \<Longrightarrow> n < length h \<Longrightarrow> parent (h ! n) = None
   \<Longrightarrow> (\<And>f. cp = Some f \<Longrightarrow> f < length h)
   \<Longrightarrow> createStubNotes P cp n h = (r, h')
   \<Longrightarrow> tree_ok h' \<and> length h \<le> length h'
       \<and> (\<forall>stubs. r = Return stubs \<longrightarrow> (\<forall>x \<in> set stubs. x < length h'))"
  unfolding stubs_ok_def by blast

lemma parse_ent_store:
  assumes st: "stubs_ok P" and ok: "tree_ok (heap s)" and dk: "dict_ok (heap s) d"
    and ps: "\<forall>p \<in> set prev. p < length (heap s)"
    and run: "parse_ent P root fopts prev ent (d, s) = (r, d', s')"
  shows "tree_ok (heap s') \<and> length (heap s) \<le> length (heap s') \<and> dict_ok (heap s') d'
       \<and> (\<forall>n. r = Return (Some n) \<longrightarrow> n < length (heap s'))"
proof -
  note tn = toNode_store [OF ok ps]
  from parse_ent_cases [OF run]
  consider (skip) "r = Return None" "d' = d" "s' = s"
    | (thrown) x where "toNode P root ent prev (topts fopts) s = (Throw x, s')" "r = Throw x" "d' = d"
    | (plain) node m where "toNode P root ent prev (topts fopts) s = (Return (node, m), s')"
        "r = Return node" "d' = d"
    | (null) m where "toNode P root ent prev (topts fopts) s = (Return (None, Some m), s')"
        "r = Throw TypeError" "d' = d"
    | (stubs) n m s1 res h2 where
        "toNode P root ent prev (topts fopts) s = (Return (Some n, Some m), s1)"
        "createStubNotes P (findClosestParent P (heap s1) n d) n (heap s1) = (res, h2)"
        "(\<exists>x. res = Throw x \<and> r = Throw x \<and> d' = d \<and> s' = s1\<lparr>heap := h2\<rparr>)
          \<or> (\<exists>stubs. res = Return stubs \<and> r = Return (Some n)
                \<and> d' = index_nodes h2 stubs d
                \<and> s' = s1\<lparr>heap := h2, missing := set_add m (missing s1)\<rparr>)"
    by blast
  then show ?thesis
  proof cases
    case skip
    with ok dk show ?thesis by simp
  next
    case thrown
    from tn [OF thrown(1)] dk thrown(2,3) show ?thesis by (simp add: dict_ok_mono)
  next
    case plain
    from tn [OF plain(1)] have a: "tree_ok (heap s')" "length (heap s) \<le> length (heap s')"
      and b: "\<forall>n. node = Some n \<longrightarrow> length (heap s') = Suc n"
      by simp_all
    from a dk have "dict_ok (heap s') d" by (simp add: dict_ok_mono)
    with a b plain(2,3) show ?thesis by auto
  next
    case null
    from tn [OF null(1)] dk null(2,3) show ?thesis by (simp add: dict_ok_mono)
  next
    case stubs
    from tn [OF stubs(1)] have a: "tree_ok (heap s1)" "length (heap s) \<le> length (heap s1)"
      and n: "length (heap s1) = Suc n" and det: "parent (heap s1 ! n) = None"
      by auto
    from n have n1: "n < length (heap s1)" by simp
    from a dk have dk1: "dict_ok (heap s1) d" by (simp add: dict_ok_mono)
    have cp: "\<And>f. findClosestParent P (heap s1) n d = Some f \<Longrightarrow> f < length (heap s1)"
      using stubs_ok_closest [OF st dk1] by blast
    from stubs_ok_create [OF st a(1) n1 det cp stubs(2)]
    have c: "tree_ok h2" "length (heap s1) \<le> length h2"
      and sv: "\<forall>stubs. res = Return stubs \<longrightarrow> (\<forall>x \<in> set stubs. x < length h2)"
      by simp_all
    from dk1 c have dk2: "dict_ok h2 d" by (simp add: dict_ok_mono)
    from stubs(3) show ?thesis
    proof
      assume "\<exists>x. res = Throw x \<and> r = Throw x \<and> d' = d \<and> s' = s1\<lparr>heap := h2\<rparr>"
      with a c dk2 show ?thesis by auto
    next
      assume "\<exists>stubs. res = Return stubs \<and> r = Return (Some n)
                \<and> d' = index_nodes h2 stubs d
                \<and> s' = s1\<lparr>heap := h2, missing := set_add m (missing s1)\<rparr>"
      then obtain stubs where res: "res = Return stubs" and r: "r = Return (Some n)"
        and d': "d' = index_nodes h2 stubs d"
        and s': "s' = s1\<lparr>heap := h2, missing := set_add m (missing s1)\<rparr>"
        by blast
      from sv res have "\<forall>x \<in> set stubs. x < length h2" by simp
      from dict_ok_index_nodes [OF dk2 this] have "dict_ok h2 (index_nodes h2 stubs d)" .
      with a c n1 show ?thesis unfolding r d' s' by simp
    qed
  qed
qed

lemma set_compact: "set (compact xs) = {x. Some x \<in> set xs}"
  by (induction xs rule: compact.induct) auto

lemma map_ents_store:
  assumes st: "stubs_ok P"
  shows "tree_ok (heap s) \<Longrightarrow> dict_ok (heap s) d \<Longrightarrow> \<forall>p \<in> set prev. p < length (heap s)
    \<Longrightarrow> map_ents P root fopts prev ents (d, s) = (r, d', s')
    \<Longrightarrow> tree_ok (heap s') \<and> length (heap s) \<le> length (heap s') \<and> dict_ok (heap s') d'
       \<and> (\<forall>nodes. r = Return nodes \<longrightarrow> (\<forall>n \<in> set (compact nodes). n < length (heap s')))"
proof (induction ents arbitrary: d s r d' s')
  case Nil
  then show ?case by auto
next
  case (Cons ent ents)
  obtain r1 d1 s1 where pe: "parse_ent P root fopts prev ent (d, s) = (r1, d1, s1)"
    by (cases "parse_ent P root fopts prev ent (d, s)")
  from parse_ent_store [OF st Cons.prems(1,2,3) pe]
  have a: "tree_ok (heap s1)" "length (heap s) \<le> length (heap s1)" "dict_ok (heap s1) d1"
    and n1: "\<forall>n. r1 = Return (Some n) \<longrightarrow> n < length (heap s1)"
    by simp_all
  show ?case
  proof (cases r1)
    case (Throw x)
    with Cons.prems(4) pe have "r = Throw x" "d' = d1" "s' = s1" by simp_all
    with a show ?thesis by simp
  next
    case (Return node)
    obtain r2 d2 s2 where me: "map_ents P root fopts prev ents (d1, s1) = (r2, d2, s2)"
      by (cases "map_ents P root fopts prev ents (d1, s1)")
    have ps1: "\<forall>p \<in> set prev. p < length (heap s1)"
      using Cons.prems(3) a(2) by auto
    from Cons.IH [OF a(1) a(3) ps1 me]
    have b: "tree_ok (heap s2)" "length (heap s1) \<le> length (heap s2)" "dict_ok (heap s2) d2"
      and n2: "\<forall>nodes. r2 = Return nodes \<longrightarrow> (\<forall>n \<in> set (compact nodes). n < length (heap s2))"
      by simp_all
    show ?thesis
    proof (cases r2)
      case (Throw x)
      with Cons.prems(4) pe Return me have "r = Throw x" "d' = d2" "s' = s2" by simp_all
      with a b show ?thesis by simp
    next
      case r2: (Return nodes)
      with Cons.prems(4) pe Return me
      have r: "r = Return (node # nodes)" and ds: "d' = d2" "s' = s2" by simp_all
      have "\<forall>n \<in> set (compact (node # nodes)). n < length (heap s2)"
        using n1 n2 Return r2 b(2) by (cases node) auto
      with a b show ?thesis unfolding r ds by simp
    qed
  qed
qed

lemma parse_loop_store:
  assumes st: "stubs_ok P"
  shows "tree_ok (heap s) \<Longrightarrow> dict_ok (heap s) d \<Longrightarrow> \<forall>p \<in> set prev. p < length (heap s)
    \<Longrightarrow> parse_loop P root fopts fmd maxLvl lvl prev (d, s) = (r, d', s')
    \<Longrightarrow> tree_ok (heap s') \<and> length (heap s) \<le> length (heap s') \<and> dict_ok (heap s') d'"
proof (induction "Suc maxLvl - lvl" arbitrary: lvl prev d s)
  case 0
  then have "\<not> lvl \<le> maxLvl" by simp
  with 0 show ?case by (simp add: parse_loop.simps)
next
  case (Suc k)
  then have le: "lvl \<le> maxLvl" by simp
  obtain r1 d1 s1 where
    me: "map_ents P root fopts prev (dflt [] (map_of fmd lvl)) (d, s) = (r1, d1, s1)"
    by (cases "map_ents P root fopts prev (dflt [] (map_of fmd lvl)) (d, s)")
  from map_ents_store [OF st Suc.prems(1,2,3) me]
  have a: "tree_ok (heap s1)" "length (heap s) \<le> length (heap s1)" "dict_ok (heap s1) d1"
    and ns: "\<forall>nodes. r1 = Return nodes \<longrightarrow> (\<forall>n \<in> set (compact nodes). n < length (heap s1))"
    by simp_all
  show ?case
  proof (cases r1)
    case (Throw x)
    with Suc.prems(4) le me have "d' = d1" "s' = s1"
      by (simp_all add: parse_loop.simps [of P root fopts fmd maxLvl lvl])
    with a show ?thesis by simp
  next
    case (Return nodes)
    with ns have cv: "\<forall>n \<in> set (compact nodes). n < length (heap s1)" by simp
    from Suc.prems(4) le me Return
    have rec: "parse_loop P root fopts fmd maxLvl (lvl + 1) (compact nodes)
                 (index_nodes (heap s1) (compact nodes) d1, s1) = (r, d', s')"
      by (simp add: parse_loop.simps [of P root fopts fmd maxLvl lvl] Let_def)
    have k: "k = Suc maxLvl - (lvl + 1)" using Suc.hyps(2) by simp
    from Suc.hyps(1) [OF k a(1) dict_ok_index_nodes [OF a(3) cv] cv rec] a(2)
    show ?thesis by simp
  qed
qed

lemma level1_map_store:
  "tree_ok (heap s) \<Longrightarrow> level1_map P root ents s = (r, s')
   \<Longrightarrow> tree_ok (heap s') \<and> length (heap s) \<le> length (heap s')
       \<and> (\<forall>k < length (heap s). parent (heap s' ! k) = parent (heap s ! k))
       \<and> (\<forall>nodes. r = Return nodes \<longrightarrow> distinct (compact nodes)
             \<and> (\<forall>n \<in> set (compact nodes). length (heap s) \<le> n \<and> n < length (heap s')
                    \<and> parent (heap s' ! n) = None))"
proof (induction ents arbitrary: s r s')
  case Nil
  then show ?case by auto
next
  case (Cons ent ents)
  let ?o = "\<lparr> t_errorOnEmpty = None, t_isRoot = Some True, t_errorOnBadParse = None \<rparr>"
  obtain r1 s1 where tn: "toNode P root ent [] ?o s = (r1, s1)"
    by (cases "toNode P root ent [] ?o s")
  from toNode_store [OF Cons.prems(1) _ tn]
  have a: "tree_ok (heap s1)" "length (heap s) \<le> length (heap s1)"
    "\<forall>k < length (heap s). parent (heap s1 ! k) = parent (heap s ! k)"
    and nd: "\<forall>node m. r1 = Return (node, m) \<longrightarrow>
            (\<forall>n. node = Some n \<longrightarrow> n = length (heap s) \<and> length (heap s1) = Suc n
               \<and> parent (heap s1 ! n) = None)"
    by auto
  show ?case
  proof (cases r1)
    case (Throw x)
    with Cons.prems(2) tn have "r = Throw x" "s' = s1" by simp_all
    with a show ?thesis by simp
  next
    case (Return nm)
    obtain node m where nm: "nm = (node, m)" by (cases nm)
    obtain r2 s2 where lm: "level1_map P root ents s1 = (r2, s2)"
      by (cases "level1_map P root ents s1")
    from Cons.IH [OF a(1) lm]
    have b: "tree_ok (heap s2)" "length (heap s1) \<le> length (heap s2)"
      "\<forall>k < length (heap s1). parent (heap s2 ! k) = parent (heap s1 ! k)"
      and ns: "\<forall>nodes. r2 = Return nodes \<longrightarrow> distinct (compact nodes)
             \<and> (\<forall>n \<in> set (compact nodes). length (heap s1) \<le> n \<and> n < length (heap s2)
                    \<and> parent (heap s2 ! n) = None)"
      by simp_all
    have frame: "\<forall>k < length (heap s). parent (heap s2 ! k) = parent (heap s ! k)"
      using a(2,3) b(3) by auto
    show ?thesis
    proof (cases r2)
      case (Throw x)
      with Cons.prems(2) tn Return nm lm have "r = Throw x" "s' = s2" by simp_all
      with a b frame show ?thesis by simp
    next
      case r2: (Return nodes)
      with Cons.prems(2) tn Return nm lm
      have r: "r = Return (node # nodes)" and s': "s' = s2" by simp_all
      from ns r2 have dn: "distinct (compact nodes)"
        and each: "\<forall>n \<in> set (compact nodes). length (heap s1) \<le> n \<and> n < length (heap s2)
                    \<and> parent (heap s2 ! n) = None"
        by simp_all
      have "distinct (compact (node # nodes))
          \<and> (\<forall>n \<in> set (compact (node # nodes)). length (heap s) \<le> n \<and> n < length (heap s2)
                    \<and> parent (heap s2 ! n) = None)"
      proof (cases node)
        case None
        with dn each a(2) show ?thesis by auto
      next
        case (Some n)
        with nd Return nm have n: "n = length (heap s)" "length (heap s1) = Suc n"
          "parent (heap s1 ! n) = None" by auto
        from n b(3) have "parent (heap s2 ! n) = None" by simp
        moreover from n each have "n \<notin> set (compact nodes)" by auto
        ultimately show ?thesis using Some dn each n b(2) a(2) by auto
      qed
      with a b frame show ?thesis unfolding r s' by simp
    qed
  qed
qed

lemma level1_attach_store:
  "tree_ok (heap s) \<Longrightarrow> dict_ok (heap s) d
   \<Longrightarrow> (\<And>r0. rootNode = Some r0 \<Longrightarrow> r0 < length (heap s))
   \<Longrightarrow> distinct (compact ns)
   \<Longrightarrow> \<forall>n \<in> set (compact ns). n < length (heap s) \<and> parent (heap s ! n) = None
   \<Longrightarrow> level1_attach rootNode ns (d, s) = (r, d', s')
   \<Longrightarrow> tree_ok (heap s') \<and> length (heap s') = length (heap s) \<and> dict_ok (heap s') d'"
proof (induction ns arbitrary: d s)
  case Nil
  then show ?case by simp
next
  case (Cons n ns)
  show ?case
  proof (cases "\<exists>r0 c. rootNode = Some r0 \<and> n = Some c")
    case False
    with Cons.prems(6) have "d' = d" "s' = s"
      by (auto split: option.splits)
    with Cons.prems(1,2) show ?thesis by simp
  next
    case True
    then obtain r0 c where rn: "rootNode = Some r0" and n: "n = Some c" by blast
    let ?h1 = "addChild r0 c (heap s)"
    let ?d1 = "dict_set (fname_key ?h1 c) (Some c) d"
    from Cons.prems(5) n have c: "c < length (heap s)" "parent (heap s ! c) = None" by simp_all
    from Cons.prems(3) [OF rn] have r0: "r0 < length (heap s)" .
    have ok1: "tree_ok ?h1" by (rule tree_ok_addChild [OF Cons.prems(1) r0 c])
    have dk1: "dict_ok ?h1 ?d1"
      by (rule dict_ok_dict_set) (use Cons.prems(2) c in \<open>simp_all add: dict_ok_def\<close>)
    from Cons.prems(4) n have dn: "distinct (compact ns)" and cn: "c \<notin> set (compact ns)"
      by simp_all
    have pend: "\<forall>m \<in> set (compact ns). m < length ?h1 \<and> parent (?h1 ! m) = None"
      using Cons.prems(5) n cn by (auto simp: parent_addChild)
    from Cons.prems(6) rn n
    have rec: "level1_attach rootNode ns (?d1, s\<lparr>heap := ?h1\<rparr>) = (r, d', s')"
      by (simp add: Let_def)
    have "tree_ok (heap s') \<and> length (heap s') = length (heap (s\<lparr>heap := ?h1\<rparr>))
        \<and> dict_ok (heap s') d'"
      by (rule Cons.IH [OF _ _ _ dn _ rec]) (use ok1 dk1 rn r0 pend in simp_all)
    then show ?thesis by simp
  qed
qed

lemma parse_store:
  assumes st: "stubs_ok P" and ok: "tree_ok (heap s)"
    and run: "parse P root fopts files s = (r, s')"
  shows "tree_ok (heap s')"
proof (cases "files = []")
  case True
  with run ok show ?thesis by (simp add: parse_def)
next
  case ne: False
  let ?fmd = "getFileMeta files"
  show ?thesis
  proof (cases "map_of ?fmd 1")
    case None
    with run ne ok show ?thesis by (simp add: parse_def Let_def)
  next
    case (Some lvl1)
    show ?thesis
    proof (cases "find (\<lambda>n. fpath n = ''root.md'') lvl1")
      case None
      with run ne Some ok show ?thesis by (simp add: parse_def Let_def)
    next
      case rootEnt: (Some rootEnt)
      let ?o = "\<lparr> t_errorOnEmpty = None, t_isRoot = Some True,
                  t_errorOnBadParse = Some (errorOnBadParse fopts) \<rparr>"
      obtain r1 s1 where tn: "toNode P root rootEnt [] ?o s = (r1, s1)"
        by (cases "toNode P root rootEnt [] ?o s")
      from toNode_store [OF ok _ tn]
      have a: "tree_ok (heap s1)" "length (heap s) \<le> length (heap s1)"
        and nd: "\<forall>node m. r1 = Return (node, m) \<longrightarrow>
                   (\<forall>n. node = Some n \<longrightarrow> length (heap s1) = Suc n)"
        by auto
      show ?thesis
      proof (cases r1)
        case (Throw x)
        with run ne Some rootEnt tn have "s' = s1" by (simp add: parse_def Let_def)
        with a show ?thesis by simp
      next
        case (Return nm)
        obtain rootNode m where nm: "nm = (rootNode, m)" by (cases nm)
        from nd Return nm have rv1: "\<And>r0. rootNode = Some r0 \<Longrightarrow> r0 < length (heap s1)"
          by auto
        let ?rest = "filter (\<lambda>n. fpath n \<noteq> ''root.md'') lvl1"
        obtain r2 s2 where lm: "level1_map P root ?rest s1 = (r2, s2)"
          by (cases "level1_map P root ?rest s1")
        from level1_map_store [OF a(1) lm]
        have b: "tree_ok (heap s2)" "length (heap s1) \<le> length (heap s2)"
          and ns: "\<forall>nodes. r2 = Return nodes \<longrightarrow> distinct (compact nodes)
             \<and> (\<forall>n \<in> set (compact nodes). n < length (heap s2)
                    \<and> parent (heap s2 ! n) = None)"
          by simp_all
        show ?thesis
        proof (cases r2)
          case (Throw x)
          with run ne Some rootEnt tn Return nm lm have "s' = s2"
            by (simp add: parse_def Let_def)
          with b show ?thesis by simp
        next
          case r2: (Return prevNodes)
          from ns r2 have dn: "distinct (compact prevNodes)"
            and pend: "\<forall>n \<in> set (compact prevNodes). n < length (heap s2)
                    \<and> parent (heap s2 ! n) = None"
            by simp_all
          have rv2: "\<And>r0. rootNode = Some r0 \<Longrightarrow> r0 < length (heap s2)"
            using rv1 b(2) by fastforce
          have dk: "dict_ok (heap s2) (dict_set ''root'' rootNode [])"
            by (rule dict_ok_dict_set) (use rv2 in simp_all)
          obtain r3 d3 s3 where
            la: "level1_attach rootNode prevNodes (dict_set ''root'' rootNode [], s2)
                   = (r3, d3, s3)"
            by (cases "level1_attach rootNode prevNodes (dict_set ''root'' rootNode [], s2)")
          from level1_attach_store [OF b(1) dk rv2 dn pend la]
          have c: "tree_ok (heap s3)" "length (heap s3) = length (heap s2)"
            "dict_ok (heap s3) d3"
            by simp_all
          show ?thesis
          proof (cases r3)
            case (Throw x)
            with run ne Some rootEnt tn \<open>r1 = Return nm\<close> nm lm r2 la have "s' = s3"
              by (simp add: parse_def Let_def)
            with c show ?thesis by simp
          next
            case r3: (Return u)
            obtain r4 d4 s4 where
              pl: "parse_loop P root fopts ?fmd (maxLvl_of ?fmd) 2 (compact prevNodes) (d3, s3)
                     = (r4, d4, s4)"
              by (cases "parse_loop P root fopts ?fmd (maxLvl_of ?fmd) 2 (compact prevNodes)
                           (d3, s3)")
            have pv: "\<forall>p \<in> set (compact prevNodes). p < length (heap s3)"
              using pend c(2) by simp
            from parse_loop_store [OF st c(1) c(3) pv pl] have d: "tree_ok (heap s4)"
              by simp
            from run ne Some rootEnt tn \<open>r1 = Return nm\<close> nm lm r2 la r3 pl
            have "s' = s4"
              by (cases r4) (simp_all add: parse_def Let_def)
            with d show ?thesis by simp
          qed
        qed
      qed
    qed
  qed
qed

text \<open>The stub collaborators as modelled from the spec meet \<open>stubs_ok\<close>.\<close>

lemma closest_in_dict: "closest_in d segs = Some f \<Longrightarrow> Some f \<in> snd ` set d"
proof (induction segs)
  case Nil
  then obtain v where "map_of d ''root'' = Some v" "v = Some f"
    by (auto split: option.splits)
  then have "(''root'', Some f) \<in> set d" by (auto dest: map_of_SomeD)
  then show ?case by force
next
  case (Cons x xs)
  show ?case
  proof (cases "map_of d (dot_join (rev (x # xs)))")
    case None
    with Cons show ?thesis by simp
  next
    case (Some v)
    show ?thesis
    proof (cases v)
      case None
      with Some Cons show ?thesis by simp
    next
      case (Some r)
      with \<open>map_of d (dot_join (rev (x # xs))) = Some v\<close> Cons.prems
      have "(dot_join (rev (x # xs)), Some f) \<in> set d" by (auto dest: map_of_SomeD)
      then show ?thesis by force
    qed
  qed
qed

lemma make_stubs_store:
  "tree_ok h \<Longrightarrow> par < length h \<Longrightarrow> make_stubs pre segs par h = (ns, l, h3)
   \<Longrightarrow> tree_ok h3 \<and> length h \<le> length h3 \<and> l < length h3
       \<and> (\<forall>x \<in> set ns. x < length h3)
       \<and> (\<forall>k < length h. parent (h3 ! k) = parent (h ! k))"
proof (induction segs arbitrary: pre par h ns l h3)
  case Nil
  then show ?case by auto
next
  case (Cons seg segs)
  let ?x = "Note_ctor (stub_opts (pre @ [seg]))"
  let ?n = "length h"
  let ?h1 = "h @ [?x]"
  let ?h2 = "addChild par ?n ?h1"
  obtain ns' l' h3' where rec: "make_stubs (pre @ [seg]) segs ?n ?h2 = (ns', l', h3')"
    by (cases "make_stubs (pre @ [seg]) segs ?n ?h2")
  with Cons.prems(3) have res: "ns = ?n # ns'" "l = l'" "h3 = h3'"
    by (simp_all add: new_Note_def Let_def)
  have ok1: "tree_ok ?h1" using Cons.prems(1) by (simp add: tree_ok_alloc)
  have ok2: "tree_ok ?h2"
    by (rule tree_ok_addChild [OF ok1]) (use Cons.prems(2) in \<open>simp_all add: nth_append\<close>)
  have n2: "?n < length ?h2" by simp
  from Cons.IH [OF ok2 n2 rec]
  have a: "tree_ok h3'" "length ?h2 \<le> length h3'" "l' < length h3'"
    "\<forall>x \<in> set ns'. x < length h3'"
    "\<forall>k < length ?h2. parent (h3' ! k) = parent (?h2 ! k)"
    by simp_all
  have frame: "\<forall>k < length h. parent (h3' ! k) = parent (h ! k)"
  proof (intro allI impI)
    fix k assume k: "k < length h"
    then have "parent (h3' ! k) = parent (?h2 ! k)" using a(5) by simp
    also have "\<dots> = parent (?h1 ! k)" using k by (simp add: parent_addChild)
    also have "\<dots> = parent (h ! k)" using k by (simp add: nth_append)
    finally show "parent (h3' ! k) = parent (h ! k)" .
  qed
  from a(2) have "length h \<le> length h3'" "?n < length h3'" by simp_all
  with a frame show ?case unfolding res by simp
qed

lemma createStubNotes_spec_store:
  assumes ok: "tree_ok h" and n: "n < length h" and det: "parent (h ! n) = None"
    and cp: "\<And>f. cp = Some f \<Longrightarrow> f < length h"
    and run: "createStubNotes_spec cp n h = (r, h')"
  shows "tree_ok h' \<and> length h \<le> length h'
       \<and> (\<forall>stubs. r = Return stubs \<longrightarrow> (\<forall>x \<in> set stubs. x < length h'))"
proof (cases cp)
  case None
  with run ok show ?thesis by (auto simp: createStubNotes_spec_def)
next
  case (Some f)
  from cp [OF Some] have f: "f < length h" .
  let ?toSegs = "split_dot (fname_key h n)"
  let ?k = "if fname_key h f = ''root'' then 0 else length (split_dot (fname_key h f))"
  obtain stubs l h1 where
    ms: "make_stubs (take ?k ?toSegs) (drop ?k (butlast ?toSegs)) f h = (stubs, l, h1)"
    by (cases "make_stubs (take ?k ?toSegs) (drop ?k (butlast ?toSegs)) f h")
  from make_stubs_store [OF ok f ms]
  have a: "tree_ok h1" "length h \<le> length h1" "l < length h1"
    "\<forall>x \<in> set stubs. x < length h1" "\<forall>k < length h. parent (h1 ! k) = parent (h ! k)"
    by simp_all
  from a(2) n have n1: "n < length h1" by simp
  from a(5) n det have det1: "parent (h1 ! n) = None" by simp
  have ok2: "tree_ok (addChild l n h1)"
    by (rule tree_ok_addChild [OF a(1) a(3) n1 det1])
  from run Some ms have "r = Return stubs" "h' = addChild l n h1"
    by (simp_all add: createStubNotes_spec_def Let_def)
  with ok2 a show ?thesis by simp
qed

lemma stubs_ok_spec_collab: "stubs_ok (spec_collab bad)"
proof -
  have 1: "\<And>h n d f. findClosestParent (spec_collab bad) h n d = Some f
             \<Longrightarrow> Some f \<in> snd ` set d"
    by (simp add: spec_collab_def findClosestParent_spec_def closest_in_dict)
  have 2: "\<And>cp n h r h'. tree_ok h \<Longrightarrow> n < length h \<Longrightarrow> parent (h ! n) = None
      \<Longrightarrow> (\<forall>f. cp = Some f \<longrightarrow> f < length h)
      \<Longrightarrow> createStubNotes (spec_collab bad) cp n h = (r, h')
      \<Longrightarrow> tree_ok h' \<and> length h \<le> length h'
       \<and> (\<forall>stubs. r = Return stubs \<longrightarrow> (\<forall>x \<in> set stubs. x < length h'))"
  proof -
    fix cp n h r h'
    assume a: "tree_ok h" "n < length h" "parent (h ! n) = None"
      "\<forall>f. cp = Some f \<longrightarrow> f < length h" "createStubNotes (spec_collab bad) cp n h = (r, h')"
    from a(4) have cp: "\<And>f. cp = Some f \<Longrightarrow> f < length h" by simp
    from a(5) have run: "createStubNotes_spec cp n h = (r, h')" by (simp add: spec_collab_def)
    from createStubNotes_spec_store [OF a(1) a(2) a(3) cp run]
    show "tree_ok h' \<and> length h \<le> length h'
       \<and> (\<forall>stubs. r = Return stubs \<longrightarrow> (\<forall>x \<in> set stubs. x < length h'))" .
  qed
  show ?thesis
    unfolding stubs_ok_def using 1 2 by blast
qed

text \<open>
  Claim C8.  \<open>addChild\<close> appends the child to \<open>this.children\<close> and sets the child's
  parent.  The builder changes \<open>parent\<close> and \<open>children\<close> through \<open>addChild\<close> alone and only
  ever attaches a note that has no parent yet, so \<open>tree_ok\<close> holds after \<open>toNode\<close> and in
  the state \<open>parse\<close> ends in, whether it returns or throws: a note whose parent is \<open>q\<close>
  occurs exactly once in the children of \<open>q\<close>.  The collaborators that synthesize stubs
  are assumed to meet \<open>stubs_ok\<close>.
\<close>

theorem build_keeps_parent_child:
  assumes "stubs_ok P"
    and "tree_ok (heap s)"
    and "p < length h" and "c < length h"
  shows "children (addChild p c h ! p) = children (h ! p) @ [c]
    \<and> parent (addChild p c h ! c) = Some p
    \<and> (tree_ok h \<longrightarrow> parent (h ! c) = None \<longrightarrow> tree_ok (addChild p c h))
    \<and> ((\<forall>q \<in> set parents. q < length (heap s))
         \<longrightarrow> tree_ok (heap (snd (toNode P root ent parents opts s))))
    \<and> tree_ok (heap (snd (parse P root fopts files s)))
    \<and> (\<forall>n < length (heap (snd (parse P root fopts files s))). \<forall>q.
          parent (heap (snd (parse P root fopts files s)) ! n) = Some q
          \<longrightarrow> count_list (children (heap (snd (parse P root fopts files s)) ! q)) n = 1)"
proof -
  have ok': "tree_ok (heap (snd (parse P root fopts files s)))"
    using parse_store [OF assms(1,2), of root fopts files]
    by (cases "parse P root fopts files s") simp
  have tn: "(\<forall>q \<in> set parents. q < length (heap s))
         \<longrightarrow> tree_ok (heap (snd (toNode P root ent parents opts s)))"
    using toNode_store [OF assms(2), of parents P root ent opts]
    by (cases "toNode P root ent parents opts s") simp
  have once: "\<forall>n < length (heap (snd (parse P root fopts files s))). \<forall>q.
          parent (heap (snd (parse P root fopts files s)) ! n) = Some q
          \<longrightarrow> count_list (children (heap (snd (parse P root fopts files s)) ! q)) n = 1"
    using ok' unfolding tree_ok_def child_once_def by blast
  show ?thesis
    using assms(3,4) ok' tn once
    by (simp add: children_addChild parent_addChild tree_ok_addChild)
qed

theorem build_keeps_parent_child_witness:
  "stubs_ok (spec_collab [])
   \<and> tree_ok (heap FileParser_init)
   \<and> children (addChild 0 1 (map (\<lambda>t. Note_ctor (titled t)) [''root'', ''a'']) ! 0) = [1]
   \<and> parent (addChild 0 1 (map (\<lambda>t. Note_ctor (titled t)) [''root'', ''a'']) ! 1) = Some 0
   \<and> tree_ok (heap (snd (parse (spec_collab []) ''ws'' optsF
        [''root.md'', ''a.b.c.md'', ''a.b.d.md''] FileParser_init)))"
proof -
  let ?h = "map (\<lambda>t. Note_ctor (titled t)) [''root'', ''a'']"
  have 1: "stubs_ok (spec_collab [])" by (rule stubs_ok_spec_collab)
  have 2: "tree_ok (heap FileParser_init)"
    by (simp add: FileParser_init_def tree_ok_def child_once_def children_back_def)
  have 3: "(0::nat) < length ?h" by simp
  have 4: "(1::nat) < length ?h" by simp
  have 5: "children (?h ! 0) = []" by simp
  from build_keeps_parent_child [OF 1 2 3 4, of _ "''ws''" _ _ optsF
      "[''root.md'', ''a.b.c.md'', ''a.b.d.md'']"] 1 2 5
  show ?thesis by simp
qed

section \<open>Properties of the tree builder\<close>

text \<open>
  The search returns the first candidate that has the path; the candidates before it
  have another one.
\<close>

lemma find_parent_first:
  "find_parent h ps pp = Return (Some p)
   \<Longrightarrow> \<exists>xs ys. ps = xs @ p # ys \<and> path h p = Some pp
         \<and> (\<forall>q \<in> set xs. \<exists>t. path h q = Some t \<and> t \<noteq> pp)"
proof (induction ps)
  case Nil
  then show ?case by simp
next
  case (Cons a ps)
  from Cons.prems obtain t where t: "path h a = Some t"
    by (auto split: option.splits)
  show ?case
  proof (cases "t = pp")
    case True
    with Cons.prems t have "a = p" by simp
    with t True have "a # ps = [] @ p # ps \<and> path h p = Some pp
         \<and> (\<forall>q \<in> set []. \<exists>t. path h q = Some t \<and> t \<noteq> pp)" by simp
    then show ?thesis by blast
  next
    case False
    with Cons.prems t have "find_parent h ps pp = Return (Some p)" by simp
    from Cons.IH [OF this] obtain xs ys where
      "ps = xs @ p # ys" "path h p = Some pp" "\<forall>q \<in> set xs. \<exists>t. path h q = Some t \<and> t \<noteq> pp"
      by blast
    with t False have "a # ps = (a # xs) @ p # ys \<and> path h p = Some pp
         \<and> (\<forall>q \<in> set (a # xs). \<exists>t. path h q = Some t \<and> t \<noteq> pp)" by simp
    then show ?thesis by blast
  qed
qed

text \<open>
  A pass over a list of files is the pass over its front followed by the pass over its
  rest, from the state the first has reached; it yields one entry per file.
\<close>

lemma compact_append: "compact (xs @ ys) = compact xs @ compact ys"
  by (induction xs rule: compact.induct) simp_all

lemma map_ents_append:
  "map_ents P root fopts prev (es1 @ es2) ds =
     (case map_ents P root fopts prev es1 ds of
        (Throw x, ds1) \<Rightarrow> (Throw x, ds1)
      | (Return ns1, ds1) \<Rightarrow>
          (case map_ents P root fopts prev es2 ds1 of
             (Throw x, ds2) \<Rightarrow> (Throw x, ds2)
           | (Return ns2, ds2) \<Rightarrow> (Return (ns1 @ ns2), ds2)))"
proof (induction es1 arbitrary: ds)
  case Nil
  show ?case by (simp split: prod.splits outcome.splits)
next
  case (Cons e es1)
  show ?case
    by (simp add: Cons.IH split: prod.splits outcome.splits)
qed

lemma map_ents_length:
  "map_ents P root fopts prev ents ds = (Return nodes, ds') \<Longrightarrow> length nodes = length ents"
proof (induction ents arbitrary: ds nodes)
  case Nil
  then show ?case by auto
next
  case (Cons e es)
  then show ?case
    by (auto split: prod.splits outcome.splits)
qed

lemma map_ents_split:
  assumes "map_ents P root fopts prev (es1 @ ent # es2) (d, s) = (Return nodes, d', s')"
  shows "\<exists>ns1 d1 s1 node d2 s2 ns2.
      map_ents P root fopts prev es1 (d, s) = (Return ns1, d1, s1)
    \<and> parse_ent P root fopts prev ent (d1, s1) = (Return node, d2, s2)
    \<and> map_ents P root fopts prev es2 (d2, s2) = (Return ns2, d', s')
    \<and> nodes = ns1 @ node # ns2"
  using assms unfolding map_ents_append
  by (auto split: prod.splits outcome.splits)

text \<open>The callback on a file whose parent is found, and on one whose search does not return.\<close>

lemma parse_ent_found:
  assumes "\<not> globMatch P [''root.*''] (fpath ent)"
    and "mdFile2NodeProps P root (fpath ent) = Inr noteProps"
    and "find_parent (heap s) prev (dirName P (prefix ent)) = Return (Some p)"
  shows "parse_ent P root fopts prev ent (d, s)
       = (Return (Some (length (heap s))), d,
          s\<lparr>heap := addChild p (length (heap s))
                      (heap s @ [Note_ctor (noteProps\<lparr>o_parent := Some (Some p),
                                                       o_children := Some []\<rparr>)])\<rparr>)"
  using assms
  by (simp add: parse_ent_def toNode_def Let_def make_note_def new_Note_def)

lemma parse_ent_find_Throw:
  assumes "\<not> globMatch P [''root.*''] (fpath ent)"
    and "mdFile2NodeProps P root (fpath ent) = Inr noteProps"
    and "find_parent (heap s) prev (dirName P (prefix ent)) = Throw x"
  shows "parse_ent P root fopts prev ent (d, s) = (Throw x, d, s)"
  using assms
  by (simp add: parse_ent_def toNode_def Let_def)

text \<open>
  Objects are allocated at the end of the store, so the note of a file is the object
  allocated next; when stub synthesis loses no object, the notes of a pass are objects
  allocated during the pass.
\<close>

lemma make_note_len:
  "make_note props par m s0 = (r, s')
   \<Longrightarrow> r = Return (Some (length (heap s0)), m) \<and> length (heap s') = Suc (length (heap s0))"
  by (cases par) (auto simp: make_note_def new_Note_def)

lemma toNode_len:
  assumes run: "toNode P root ent parents opts s = (r, s')"
  shows "length (heap s) \<le> length (heap s')
       \<and> (\<forall>n m. r = Return (Some n, m) \<longrightarrow> n = length (heap s) \<and> length (heap s') = Suc n)"
proof (cases "mdFile2NodeProps P root (fpath ent)")
  case (Inl err)
  from toNode_Inl [OF Inl run] show ?thesis by auto
next
  case (Inr props)
  show ?thesis
  proof (cases "find_parent (heap s) parents (dirName P (prefix ent))")
    case (Throw x)
    from toNode_Inr_Throw [OF Inr Throw run] show ?thesis by simp
  next
    case (Return par)
    from toNode_Inr_Return [OF Inr Return run] show ?thesis
      by (auto dest!: make_note_len)
  qed
qed

lemma parse_ent_fresh:
  assumes fr: "stubs_fresh P"
    and run: "parse_ent P root fopts prev ent (d, s) = (r, d', s')"
  shows "length (heap s) \<le> length (heap s')
       \<and> (\<forall>n. r = Return (Some n) \<longrightarrow> n = length (heap s) \<and> n < length (heap s'))"
proof -
  have st: "\<And>cp n h r h'. createStubNotes P cp n h = (r, h') \<Longrightarrow> length h \<le> length h'"
    using fr unfolding stubs_fresh_def by blast
  from parse_ent_cases [OF run]
  consider (glob) "r = Return None" "s' = s"
    | (thrown) x where "toNode P root ent prev (topts fopts) s = (Throw x, s')" "r = Throw x"
    | (plain) node m where "toNode P root ent prev (topts fopts) s = (Return (node, m), s')"
        "r = Return node"
    | (nonode) m where "toNode P root ent prev (topts fopts) s = (Return (None, Some m), s')"
        "r = Throw TypeError"
    | (stub) n m s1 res h2 where
        "toNode P root ent prev (topts fopts) s = (Return (Some n, Some m), s1)"
        "createStubNotes P (findClosestParent P (heap s1) n d) n (heap s1) = (res, h2)"
        "heap s' = h2" "r = Return (Some n) \<or> (\<exists>x. r = Throw x)"
    by fastforce
  then show ?thesis
  proof cases
    case glob
    then show ?thesis by simp
  next
    case thrown
    from toNode_len [OF thrown(1)] thrown(2) show ?thesis by simp
  next
    case plain
    from toNode_len [OF plain(1)] plain(2) show ?thesis by auto
  next
    case nonode
    from toNode_len [OF nonode(1)] nonode(2) show ?thesis by simp
  next
    case stub
    from toNode_len [OF stub(1)]
    have "n = length (heap s)" "length (heap s1) = Suc n" by simp_all
    moreover from st [OF stub(2)] stub(3) have "length (heap s1) \<le> length (heap s')" by simp
    ultimately show ?thesis using stub(4) by auto
  qed
qed

lemma map_ents_fresh:
  assumes fr: "stubs_fresh P"
  shows "map_ents P root fopts prev ents (d, s) = (r, d', s')
    \<Longrightarrow> length (heap s) \<le> length (heap s')
       \<and> (\<forall>nodes. r = Return nodes \<longrightarrow>
            (\<forall>m \<in> set (compact nodes). length (heap s) \<le> m \<and> m < length (heap s')))"
proof (induction ents arbitrary: d s r d' s')
  case Nil
  then show ?case by auto
next
  case (Cons e es)
  obtain r1 d1 s1 where pe: "parse_ent P root fopts prev e (d, s) = (r1, d1, s1)"
    by (cases "parse_ent P root fopts prev e (d, s)")
  note f1 = parse_ent_fresh [OF fr pe]
  show ?case
  proof (cases r1)
    case (Throw x)
    with Cons.prems pe f1 show ?thesis by auto
  next
    case (Return node)
    obtain r2 d2 s2 where me: "map_ents P root fopts prev es (d1, s1) = (r2, d2, s2)"
      by (cases "map_ents P root fopts prev es (d1, s1)")
    note f2 = Cons.IH [OF me]
    show ?thesis
    proof (cases r2)
      case (Throw x)
      with Cons.prems pe Return me f1 f2 show ?thesis by auto
    next
      case rest: (Return ns)
      with Cons.prems pe Return me have r: "r = Return (node # ns)" and s': "s' = s2"
        by auto
      from f2 rest s' have le2: "length (heap s1) \<le> length (heap s')"
        and in2: "\<forall>m \<in> set (compact ns). length (heap s1) \<le> m \<and> m < length (heap s')"
        by auto
      from f1 have le1: "length (heap s) \<le> length (heap s1)" by simp
      have "\<forall>m \<in> set (compact (node # ns)). length (heap s) \<le> m \<and> m < length (heap s')"
      proof (cases node)
        case None
        with in2 le1 show ?thesis by auto
      next
        case (Some n)
        with f1 Return have "n = length (heap s)" "n < length (heap s1)" by auto
        with Some in2 le1 le2 show ?thesis by auto
      qed
      with le1 le2 r show ?thesis by auto
    qed
  qed
qed

text \<open>
  A pass yields a note for each file that materializes and is no companion of the root,
  and for no other file.
\<close>

lemma parse_ent_count:
  assumes "parse_ent P root fopts prev ent (d, s) = (Return node, d', s')"
  shows "node \<noteq> None \<longleftrightarrow>
           \<not> globMatch P [''root.*''] (fpath ent) \<and> \<not> isl (mdFile2NodeProps P root (fpath ent))"
proof (cases "globMatch P [''root.*''] (fpath ent)")
  case True
  with assms show ?thesis by (simp add: parse_ent_def)
next
  case False
  from parse_ent_cases [OF assms] False
  obtain node' m s1 where tn: "toNode P root ent prev (topts fopts) s = (Return (node', m), s1)"
    and node: "node = node'"
    by auto
  show ?thesis
  proof (cases "mdFile2NodeProps P root (fpath ent)")
    case (Inl err)
    from toNode_Inl [OF Inl tn] node False Inl show ?thesis by simp
  next
    case (Inr props)
    show ?thesis
    proof (cases "find_parent (heap s) prev (dirName P (prefix ent))")
      case (Throw x)
      from toNode_Inr_Throw [OF Inr Throw tn] show ?thesis by simp
    next
      case (Return par)
      from toNode_Inr_Return [OF Inr Return tn] node False Inr show ?thesis
        by (auto dest!: make_note_len)
    qed
  qed
qed

lemma map_ents_count:
  "map_ents P root fopts prev ents (d, s) = (Return nodes, d', s')
   \<Longrightarrow> length (compact nodes)
       = length (filter (\<lambda>e. \<not> globMatch P [''root.*''] (fpath e)
                              \<and> \<not> isl (mdFile2NodeProps P root (fpath e))) ents)"
proof (induction ents arbitrary: d s nodes)
  case Nil
  then show ?case by auto
next
  case (Cons e es)
  from Cons.prems obtain node d1 s1 rest where
    pe: "parse_ent P root fopts prev e (d, s) = (Return node, d1, s1)"
    and me: "map_ents P root fopts prev es (d1, s1) = (Return rest, d', s')"
    and nodes: "nodes = node # rest"
    by (auto split: prod.splits outcome.splits)
  from parse_ent_count [OF pe] Cons.IH [OF me] nodes show ?case
    by (cases node) auto
qed

text \<open>
  A file of the level loop that materializes and has no candidate of its expected parent
  path \<open>pp\<close>.  A \<open>NO_PARENT_PATH\<close> entry is recorded; \<open>errorOnEmpty\<close> is true by default,
  and when it is true the error is thrown; when it is false, \<open>toNode\<close> returns the detached
  note and \<open>pp\<close>.  Then, for a non-empty \<open>pp\<close>, the note goes to stub synthesis, \<open>pp\<close> is
  added to the missing set and the stubs are indexed (an exception of stub synthesis itself
  is passed on); for the empty string, \<open>if (missing)\<close> is false and nothing of this is done.
  With \<open>isRoot\<close> set, as for the files of level 1, a missing parent is no error: \<open>toNode\<close>
  records nothing and does not throw, whatever \<open>errorOnEmpty\<close> is.
\<close>

lemma parse_ent_no_parent:
  fixes P root ent noteProps prevNodes s d fopts b e b'
  defines "pp \<equiv> dirName P (prefix ent)"
  defines "n \<equiv> length (heap s)"
  defines "s1 \<equiv> s\<lparr> errors := errors s @ [NO_PARENT_PATH ent (dirName P (prefix ent))],
                    heap := heap s @ [Note_ctor (noteProps\<lparr>o_parent := Some None,
                                                             o_children := Some []\<rparr>)] \<rparr>"
  assumes glob: "\<not> globMatch P [''root.*''] (fpath ent)"
    and md: "mdFile2NodeProps P root (fpath ent) = Inr noteProps"
    and nf: "find_parent (heap s) prevNodes (dirName P (prefix ent)) = Return None"
  shows "errorOnEmpty (FileParser_opts \<lparr>o_errorOnEmpty = None, o_errorOnBadParse = b\<rparr>)
    \<and> (errorOnEmpty fopts \<longrightarrow>
          parse_ent P root fopts prevNodes ent (d, s)
            = (Throw (NoParentError (NO_PARENT_PATH ent pp)), d,
               s\<lparr>errors := errors s @ [NO_PARENT_PATH ent pp]\<rparr>))
    \<and> (\<not> errorOnEmpty fopts \<longrightarrow>
          toNode P root ent prevNodes (topts fopts) s = (Return (Some n, Some pp), s1)
        \<and> (pp \<noteq> [] \<longrightarrow>
            parse_ent P root fopts prevNodes ent (d, s)
              = (case createStubNotes P (findClosestParent P (heap s1) n d) n (heap s1) of
                   (Throw x, h2) \<Rightarrow> (Throw x, d, s1\<lparr>heap := h2\<rparr>)
                 | (Return stubNodes, h2) \<Rightarrow>
                     (Return (Some n), index_nodes h2 stubNodes d,
                      s1\<lparr>heap := h2, missing := set_add pp (missing s1)\<rparr>)))
        \<and> (pp = [] \<longrightarrow>
            parse_ent P root fopts prevNodes ent (d, s) = (Return (Some n), d, s1)))
    \<and> toNode P root ent prevNodes
          \<lparr> t_errorOnEmpty = e, t_isRoot = Some True, t_errorOnBadParse = b' \<rparr> s
        = (Return (Some n, None), s1\<lparr>errors := errors s\<rparr>)"
proof (intro conjI impI)
  show "errorOnEmpty (FileParser_opts \<lparr>o_errorOnEmpty = None, o_errorOnBadParse = b\<rparr>)"
    by (simp add: FileParser_opts_def)
next
  assume "errorOnEmpty fopts"
  then have tn: "toNode P root ent prevNodes (topts fopts) s
           = (Throw (NoParentError (NO_PARENT_PATH ent pp)),
              s\<lparr>errors := errors s @ [NO_PARENT_PATH ent pp]\<rparr>)"
    by (simp add: toNode_def md nf topts_def pp_def Let_def)
  show "parse_ent P root fopts prevNodes ent (d, s)
            = (Throw (NoParentError (NO_PARENT_PATH ent pp)), d,
               s\<lparr>errors := errors s @ [NO_PARENT_PATH ent pp]\<rparr>)"
    using glob tn by (simp add: parse_ent_def topts_def)
next
  assume ne: "\<not> errorOnEmpty fopts"
  then show tn: "toNode P root ent prevNodes (topts fopts) s = (Return (Some n, Some pp), s1)"
    by (simp add: toNode_def md nf topts_def pp_def n_def s1_def Let_def make_note_def
        new_Note_def)
  {
    assume "pp \<noteq> []"
    with glob tn
    show "parse_ent P root fopts prevNodes ent (d, s)
              = (case createStubNotes P (findClosestParent P (heap s1) n d) n (heap s1) of
                   (Throw x, h2) \<Rightarrow> (Throw x, d, s1\<lparr>heap := h2\<rparr>)
                 | (Return stubNodes, h2) \<Rightarrow>
                     (Return (Some n), index_nodes h2 stubNodes d,
                      s1\<lparr>heap := h2, missing := set_add pp (missing s1)\<rparr>))"
      by (simp add: parse_ent_def topts_def Let_def split: prod.splits outcome.splits)
  }
  {
    assume "pp = []"
    with glob tn
    show "parse_ent P root fopts prevNodes ent (d, s) = (Return (Some n), d, s1)"
      by (simp add: parse_ent_def topts_def)
  }
next
  show "toNode P root ent prevNodes
          \<lparr> t_errorOnEmpty = e, t_isRoot = Some True, t_errorOnBadParse = b' \<rparr> s
        = (Return (Some n, None), s1\<lparr>errors := errors s\<rparr>)"
    by (simp add: toNode_def md nf n_def s1_def Let_def make_note_def new_Note_def)
qed

text \<open>The stub synthesis modelled from the spec returns objects that it has allocated.\<close>

lemma make_stubs_fresh:
  "make_stubs pre segs par h = (ns, l, h3)
   \<Longrightarrow> length h \<le> length h3 \<and> (\<forall>x \<in> set ns. length h \<le> x \<and> x < length h3)"
proof (induction segs arbitrary: pre par h ns l h3)
  case Nil
  then show ?case by auto
next
  case (Cons seg segs)
  let ?n = "length h"
  let ?h2 = "addChild par ?n (h @ [Note_ctor (stub_opts (pre @ [seg]))])"
  obtain ns' l' h3' where rec: "make_stubs (pre @ [seg]) segs ?n ?h2 = (ns', l', h3')"
    by (cases "make_stubs (pre @ [seg]) segs ?n ?h2")
  with Cons.prems have res: "ns = ?n # ns'" "h3 = h3'"
    by (simp_all add: new_Note_def Let_def)
  from Cons.IH [OF rec]
  have "Suc ?n \<le> length h3'" "\<forall>x \<in> set ns'. Suc ?n \<le> x \<and> x < length h3'" by simp_all
  with res show ?case by auto
qed

lemma stubs_fresh_spec_collab: "stubs_fresh (spec_collab bad)"
proof -
  have "length h \<le> length h'
          \<and> (\<forall>stubs. r = Return stubs \<longrightarrow> (\<forall>x \<in> set stubs. length h \<le> x \<and> x < length h'))"
    if run: "createStubNotes_spec cp n h = (r, h')" for cp n h r h'
  proof (cases cp)
    case None
    with run show ?thesis by (auto simp: createStubNotes_spec_def)
  next
    case (Some f)
    let ?toSegs = "split_dot (fname_key h n)"
    let ?k = "if fname_key h f = ''root'' then 0 else length (split_dot (fname_key h f))"
    obtain stubs l h1 where ms: "make_stubs (take ?k ?toSegs) (drop ?k (butlast ?toSegs)) f h
                                   = (stubs, l, h1)"
      by (cases "make_stubs (take ?k ?toSegs) (drop ?k (butlast ?toSegs)) f h")
    with run Some have r: "r = Return stubs" and h': "h' = addChild l n h1"
      by (simp_all add: createStubNotes_spec_def Let_def)
    from make_stubs_fresh [OF ms] r h' show ?thesis by simp
  qed
  then show ?thesis
    unfolding stubs_fresh_def by (simp add: spec_collab_def)
qed

text \<open>
  Claim C2, amended.  Take a pass of the level loop over the files \<open>es1 @ ent # es2\<close> of
  one level, with the candidate list \<open>prevNodes\<close>, that returns, and a file \<open>ent\<close> of it
  that materializes and is no companion of the root.  Let \<open>s1\<close> be the state the pass has
  reached when it comes to \<open>ent\<close>, after the files \<open>es1\<close>.  The note of \<open>ent\<close> is the object
  allocated next, it stands in the result at the place of \<open>ent\<close>, and one of two things
  has happened.  Either \<open>prevNodes\<close> has a first node \<open>p\<close> whose \<open>path\<close> in \<open>s1\<close> is
  \<open>dirName\<close> of the file's stem: then \<open>p\<close> is the parent, and nothing else changes.  Or
  no node of \<open>prevNodes\<close> has this path: then \<open>errorOnEmpty\<close> is off and \<open>NO_PARENT_PATH\<close>
  is recorded, whatever the dictionary \<open>nodesStoreByFname\<close> holds; the stubs that stub
  synthesis returns are indexed in the dictionary and, being new objects, are not among
  the notes of the pass.  These notes, one for each file that materializes and is no
  companion of the root, and nothing else, are what the loop hands to the next level as
  its candidate list.
\<close>

theorem candidates_are_prevNodes:
  fixes P root fopts prevNodes es1 ent es2 d s nodes d' s' noteProps
  defines "pp \<equiv> dirName P (prefix ent)"
  assumes run: "map_ents P root fopts prevNodes (es1 @ ent # es2) (d, s) = (Return nodes, d', s')"
    and ng: "\<not> globMatch P [''root.*''] (fpath ent)"
    and md: "mdFile2NodeProps P root (fpath ent) = Inr noteProps"
  shows "(\<exists>ns1 d1 s1 d2 s2 ns2.
        map_ents P root fopts prevNodes es1 (d, s) = (Return ns1, d1, s1)
      \<and> parse_ent P root fopts prevNodes ent (d1, s1)
          = (Return (Some (length (heap s1))), d2, s2)
      \<and> map_ents P root fopts prevNodes es2 (d2, s2) = (Return ns2, d', s')
      \<and> nodes = ns1 @ Some (length (heap s1)) # ns2
      \<and> length ns1 = length es1
      \<and> ((\<exists>xs p ys. prevNodes = xs @ p # ys \<and> path (heap s1) p = Some pp
              \<and> (\<forall>q \<in> set xs. \<exists>t. path (heap s1) q = Some t \<and> t \<noteq> pp)
              \<and> d2 = d1
              \<and> s2 = s1\<lparr>heap := addChild p (length (heap s1))
                            (heap s1 @ [Note_ctor (noteProps\<lparr>o_parent := Some (Some p),
                                                              o_children := Some []\<rparr>)])\<rparr>
              \<and> parent (heap s2 ! length (heap s1)) = Some p)
         \<or> ((\<forall>q \<in> set prevNodes. \<exists>t. path (heap s1) q = Some t \<and> t \<noteq> pp)
              \<and> \<not> errorOnEmpty fopts
              \<and> errors s2 = errors s1 @ [NO_PARENT_PATH ent pp]
              \<and> (pp \<noteq> [] \<longrightarrow>
                   (\<exists>stubs.
                       createStubNotes P
                         (findClosestParent P
                            (heap s1 @ [Note_ctor (noteProps\<lparr>o_parent := Some None,
                                                              o_children := Some []\<rparr>)])
                            (length (heap s1)) d1)
                         (length (heap s1))
                         (heap s1 @ [Note_ctor (noteProps\<lparr>o_parent := Some None,
                                                            o_children := Some []\<rparr>)])
                         = (Return stubs, heap s2)
                     \<and> d2 = index_nodes (heap s2) stubs d1
                     \<and> (stubs_fresh P \<longrightarrow> set stubs \<inter> set (compact nodes) = {}))))))
    \<and> length (compact nodes)
        = length (filter (\<lambda>e. \<not> globMatch P [''root.*''] (fpath e)
                               \<and> \<not> isl (mdFile2NodeProps P root (fpath e))) (es1 @ ent # es2))
    \<and> (lvl \<le> maxLvl \<longrightarrow> dflt [] (map_of fmd lvl) = es1 @ ent # es2 \<longrightarrow>
          parse_loop P root fopts fmd maxLvl lvl prevNodes (d, s)
            = parse_loop P root fopts fmd maxLvl (lvl + 1) (compact nodes)
                (index_nodes (heap s') (compact nodes) d', s'))"
proof (intro conjI)
  from map_ents_split [OF run] obtain ns1 d1 s1 node d2 s2 ns2 where
    A: "map_ents P root fopts prevNodes es1 (d, s) = (Return ns1, d1, s1)"
    and B: "parse_ent P root fopts prevNodes ent (d1, s1) = (Return node, d2, s2)"
    and C: "map_ents P root fopts prevNodes es2 (d2, s2) = (Return ns2, d', s')"
    and nodes: "nodes = ns1 @ node # ns2"
    by blast
  let ?n = "length (heap s1)"
  let ?H = "heap s1 @ [Note_ctor (noteProps\<lparr>o_parent := Some None, o_children := Some []\<rparr>)]"
  let ?found = "\<exists>xs p ys. prevNodes = xs @ p # ys \<and> path (heap s1) p = Some pp
              \<and> (\<forall>q \<in> set xs. \<exists>t. path (heap s1) q = Some t \<and> t \<noteq> pp)
              \<and> d2 = d1
              \<and> s2 = s1\<lparr>heap := addChild p ?n
                            (heap s1 @ [Note_ctor (noteProps\<lparr>o_parent := Some (Some p),
                                                              o_children := Some []\<rparr>)])\<rparr>
              \<and> parent (heap s2 ! ?n) = Some p"
  let ?orphan = "(\<forall>q \<in> set prevNodes. \<exists>t. path (heap s1) q = Some t \<and> t \<noteq> pp)
              \<and> \<not> errorOnEmpty fopts
              \<and> errors s2 = errors s1 @ [NO_PARENT_PATH ent pp]
              \<and> (pp \<noteq> [] \<longrightarrow>
                   (\<exists>stubs.
                       createStubNotes P (findClosestParent P ?H ?n d1) ?n ?H
                         = (Return stubs, heap s2)
                     \<and> d2 = index_nodes (heap s2) stubs d1
                     \<and> (stubs_fresh P \<longrightarrow> set stubs \<inter> set (compact nodes) = {})))"
  have main: "node = Some ?n \<and> (?found \<or> ?orphan)"
  proof (cases "find_parent (heap s1) prevNodes pp")
    case (Throw x)
    from parse_ent_find_Throw [OF ng md Throw [unfolded pp_def], of fopts d1] B
    show ?thesis by simp
  next
    case (Return par)
    show ?thesis
    proof (cases par)
      case (Some p)
      with Return have fp: "find_parent (heap s1) prevNodes (dirName P (prefix ent))
                              = Return (Some p)"
        by (simp add: pp_def)
      from parse_ent_found [OF ng md fp, of fopts d1] B
      have node: "node = Some ?n" and d2: "d2 = d1"
        and s2: "s2 = s1\<lparr>heap := addChild p ?n
                            (heap s1 @ [Note_ctor (noteProps\<lparr>o_parent := Some (Some p),
                                                              o_children := Some []\<rparr>)])\<rparr>"
        by simp_all
      from s2 have par: "parent (heap s2 ! ?n) = Some p"
        by (simp add: parent_addChild)
      from find_parent_first [OF fp] obtain xs ys where
        "prevNodes = xs @ p # ys" "path (heap s1) p = Some pp"
        "\<forall>q \<in> set xs. \<exists>t. path (heap s1) q = Some t \<and> t \<noteq> pp"
        unfolding pp_def by blast
      with d2 s2 par have ?found by blast
      with node show ?thesis by blast
    next
      case None
      with Return have nf: "find_parent (heap s1) prevNodes (dirName P (prefix ent))
                              = Return None"
        by (simp add: pp_def)
      note T = parse_ent_no_parent [OF ng md nf, of _ fopts d1, folded pp_def]
      from find_parent_None [OF nf]
      have none: "\<forall>q \<in> set prevNodes. \<exists>t. path (heap s1) q = Some t \<and> t \<noteq> pp"
        unfolding pp_def .
      have ne: "\<not> errorOnEmpty fopts"
      proof
        assume "errorOnEmpty fopts"
        with T B show False by simp
      qed
      let ?s1a = "s1\<lparr> errors := errors s1 @ [NO_PARENT_PATH ent pp], heap := ?H \<rparr>"
      show ?thesis
      proof (cases "pp = []")
        case True
        with T ne have "parse_ent P root fopts prevNodes ent (d1, s1) = (Return (Some ?n), d1, ?s1a)"
          by (simp add: pp_def)
        with B have "node = Some ?n" "errors s2 = errors s1 @ [NO_PARENT_PATH ent pp]"
          by auto
        with none ne True show ?thesis by simp
      next
        case False
        obtain res h2 where cs: "createStubNotes P (findClosestParent P ?H ?n d1) ?n ?H = (res, h2)"
          by (cases "createStubNotes P (findClosestParent P ?H ?n d1) ?n ?H")
        from T ne False
        have pe: "parse_ent P root fopts prevNodes ent (d1, s1)
              = (case createStubNotes P (findClosestParent P ?H ?n d1) ?n ?H of
                   (Throw x, h2) \<Rightarrow> (Throw x, d1, ?s1a\<lparr>heap := h2\<rparr>)
                 | (Return stubNodes, h2) \<Rightarrow>
                     (Return (Some ?n), index_nodes h2 stubNodes d1,
                      ?s1a\<lparr>heap := h2, missing := set_add pp (missing ?s1a)\<rparr>))"
          by (simp add: pp_def)
        from pe B cs obtain stubs where res: "res = Return stubs"
          by (cases res) auto
        from pe B cs res have node: "node = Some ?n" and d2: "d2 = index_nodes h2 stubs d1"
          and s2: "s2 = ?s1a\<lparr>heap := h2, missing := set_add pp (missing ?s1a)\<rparr>"
          by simp_all
        from s2 have h2: "heap s2 = h2" and er: "errors s2 = errors s1 @ [NO_PARENT_PATH ent pp]"
          by simp_all
        have disj: "set stubs \<inter> set (compact nodes) = {}" if fr: "stubs_fresh P"
        proof -
          from fr cs res have st: "\<forall>x \<in> set stubs. Suc ?n \<le> x \<and> x < length h2"
            unfolding stubs_fresh_def by fastforce
          from map_ents_fresh [OF fr A]
          have 1: "\<forall>m \<in> set (compact ns1). m < ?n" by simp
          from map_ents_fresh [OF fr C] h2
          have 2: "\<forall>m \<in> set (compact ns2). length h2 \<le> m" by simp
          have "set (compact nodes) = set (compact ns1) \<union> {?n} \<union> set (compact ns2)"
            unfolding nodes node by (simp add: compact_append)
          with st 1 2 show ?thesis by fastforce
        qed
        from cs res h2 d2 disj
        have "\<exists>stubs. createStubNotes P (findClosestParent P ?H ?n d1) ?n ?H
                         = (Return stubs, heap s2)
                     \<and> d2 = index_nodes (heap s2) stubs d1
                     \<and> (stubs_fresh P \<longrightarrow> set stubs \<inter> set (compact nodes) = {})"
          by blast
        with none ne er node show ?thesis by blast
      qed
    qed
  qed
  from main have node: "node = Some ?n" and alt: "?found \<or> ?orphan" by blast+
  from A have len: "length ns1 = length es1" by (rule map_ents_length)
  from A B C nodes node alt len
  show "\<exists>ns1 d1 s1 d2 s2 ns2.
        map_ents P root fopts prevNodes es1 (d, s) = (Return ns1, d1, s1)
      \<and> parse_ent P root fopts prevNodes ent (d1, s1)
          = (Return (Some (length (heap s1))), d2, s2)
      \<and> map_ents P root fopts prevNodes es2 (d2, s2) = (Return ns2, d', s')
      \<and> nodes = ns1 @ Some (length (heap s1)) # ns2
      \<and> length ns1 = length es1
      \<and> ((\<exists>xs p ys. prevNodes = xs @ p # ys \<and> path (heap s1) p = Some pp
              \<and> (\<forall>q \<in> set xs. \<exists>t. path (heap s1) q = Some t \<and> t \<noteq> pp)
              \<and> d2 = d1
              \<and> s2 = s1\<lparr>heap := addChild p (length (heap s1))
                            (heap s1 @ [Note_ctor (noteProps\<lparr>o_parent := Some (Some p),
                                                              o_children := Some []\<rparr>)])\<rparr>
              \<and> parent (heap s2 ! length (heap s1)) = Some p)
         \<or> ((\<forall>q \<in> set prevNodes. \<exists>t. path (heap s1) q = Some t \<and> t \<noteq> pp)
              \<and> \<not> errorOnEmpty fopts
              \<and> errors s2 = errors s1 @ [NO_PARENT_PATH ent pp]
              \<and> (pp \<noteq> [] \<longrightarrow>
                   (\<exists>stubs.
                       createStubNotes P
                         (findClosestParent P
                            (heap s1 @ [Note_ctor (noteProps\<lparr>o_parent := Some None,
                                                              o_children := Some []\<rparr>)])
                            (length (heap s1)) d1)
                         (length (heap s1))
                         (heap s1 @ [Note_ctor (noteProps\<lparr>o_parent := Some None,
                                                            o_children := Some []\<rparr>)])
                         = (Return stubs, heap s2)
                     \<and> d2 = index_nodes (heap s2) stubs d1
                     \<and> (stubs_fresh P \<longrightarrow> set stubs \<inter> set (compact nodes) = {})))))"
    by (intro exI [of _ ns1] exI [of _ d1] exI [of _ s1] exI [of _ d2] exI [of _ s2]
        exI [of _ ns2]) simp
next
  show "length (compact nodes)
        = length (filter (\<lambda>e. \<not> globMatch P [''root.*''] (fpath e)
                               \<and> \<not> isl (mdFile2NodeProps P root (fpath e))) (es1 @ ent # es2))"
    using run by (rule map_ents_count)
next
  show "lvl \<le> maxLvl \<longrightarrow> dflt [] (map_of fmd lvl) = es1 @ ent # es2 \<longrightarrow>
          parse_loop P root fopts fmd maxLvl lvl prevNodes (d, s)
            = parse_loop P root fopts fmd maxLvl (lvl + 1) (compact nodes)
                (index_nodes (heap s') (compact nodes) d', s')"
    using run by (simp add: parse_loop.simps [of P root fopts fmd maxLvl lvl] Let_def)
qed

text \<open>
  The files \<open>a.b.c.md\<close> and \<open>a.b.d.md\<close> of level 3 after \<open>root.md\<close>, \<open>a.md\<close> and
  \<open>a.x.md\<close>, with the one candidate \<open>a.x\<close> (object 2).  Handling \<open>a.b.c\<close> indexes the
  stub \<open>a.b\<close> (object 4, of path \<open>a.b\<close>), which is none of the notes 3 and 5 of the
  pass; for \<open>a.b.d\<close> the search still fails and \<open>NO_PARENT_PATH\<close> is recorded.
\<close>

theorem candidates_are_prevNodes_witness:
  "\<exists>d1 s1 d2 s2 stubs.
      parse_ent (spec_collab []) ''ws'' optsF [2] (file_meta ''a.b.c.md'')
          ([(''root'', Some 0), (''a'', Some 1), (''a.x'', Some 2)], after_a_x)
        = (Return (Some 3), d1, s1)
    \<and> d1 = index_nodes (heap s1) stubs [(''root'', Some 0), (''a'', Some 1), (''a.x'', Some 2)]
    \<and> set stubs \<inter> set (compact [Some 3, Some 5]) = {}
    \<and> map_of d1 ''a.b'' = Some (Some 4)
    \<and> path (heap s1) 4 = Some ''a.b''
    \<and> parse_ent (spec_collab []) ''ws'' optsF [2] (file_meta ''a.b.d.md'') (d1, s1)
        = (Return (Some 5), d2, s2)
    \<and> errors s2 = errors s1 @ [NO_PARENT_PATH (file_meta ''a.b.d.md'') ''a.b'']
    \<and> fst (parse_loop (spec_collab []) ''ws'' optsF
              (getFileMeta [''root.md'', ''a.md'', ''a.x.md'', ''a.b.c.md'', ''a.b.d.md''])
              3 3 [2] ([(''root'', Some 0), (''a'', Some 1), (''a.x'', Some 2)], after_a_x))
        = Return ()"
proof -
  let ?P = "spec_collab []"
  let ?D = "[(''root'', Some (0::nat)), (''a'', Some 1), (''a.x'', Some 2)]"
  let ?c = "file_meta ''a.b.c.md''"
  let ?e = "file_meta ''a.b.d.md''"
  let ?X = "parse_ent ?P ''ws'' optsF [2] ?c (?D, after_a_x)"
  let ?R = "map_ents ?P ''ws'' optsF [2] [?c, ?e] (?D, after_a_x)"
  let ?fmd = "getFileMeta [''root.md'', ''a.md'', ''a.x.md'', ''a.b.c.md'', ''a.b.d.md'']"
  have "fst ?X = Return (Some 3)" by code_simp
  then obtain d1 s1 where X: "?X = (Return (Some 3), d1, s1)"
    by (cases ?X) auto
  then have d1: "fst (snd ?X) = d1" and s1: "snd (snd ?X) = s1" by simp_all
  have "fst ?R = Return [Some 3, Some 5]" by code_simp
  then obtain d' s' where R: "?R = (Return [Some 3, Some 5], d', s')"
    by (cases ?R) auto
  have run1: "map_ents ?P ''ws'' optsF [2] ([] @ ?c # [?e]) (?D, after_a_x)
                = (Return [Some 3, Some 5], d', s')"
    using R by simp
  have run2: "map_ents ?P ''ws'' optsF [2] ([?c] @ ?e # []) (?D, after_a_x)
                = (Return [Some 3, Some 5], d', s')"
    using R by simp
  have gc: "\<not> globMatch ?P [''root.*''] (fpath ?c)" by code_simp
  have ge: "\<not> globMatch ?P [''root.*''] (fpath ?e)" by code_simp
  have mc: "mdFile2NodeProps ?P ''ws'' (fpath ?c) = Inr (projr (sample_md [] ''ws'' ''a.b.c.md''))"
    by code_simp
  have me: "mdFile2NodeProps ?P ''ws'' (fpath ?e) = Inr (projr (sample_md [] ''ws'' ''a.b.d.md''))"
    by code_simp
  have pc: "dirName ?P (prefix ?c) = ''a.b''" by code_simp
  have pe: "dirName ?P (prefix ?e) = ''a.b''" by code_simp
  have p0: "path (heap after_a_x) 2 = Some ''a.x''" by code_simp
  have "path (heap (snd (snd ?X))) 2 = Some ''a.x''" by code_simp
  then have p1: "path (heap s1) 2 = Some ''a.x''" unfolding s1 .
  have "path (heap (snd (snd ?X))) 4 = Some ''a.b''" by code_simp
  then have p4: "path (heap s1) 4 = Some ''a.b''" unfolding s1 .
  have "map_of (fst (snd ?X)) ''a.b'' = Some (Some 4)" by code_simp
  then have m4: "map_of d1 ''a.b'' = Some (Some 4)" unfolding d1 .
  have l0: "length (heap after_a_x) = 3" by code_simp
  have "length (heap (snd (snd ?X))) = 5" by code_simp
  then have l1: "length (heap s1) = 5" unfolding s1 .
  have lv: "dflt [] (map_of ?fmd 3) = [?c] @ ?e # []" by code_simp
  have single: "\<And>xs p ys. [2::nat] = xs @ p # ys \<Longrightarrow> p = 2"
    by (simp add: Cons_eq_append_conv)
  from candidates_are_prevNodes [OF run1 gc mc, THEN conjunct1]
  obtain d2 s2 stubs where
    B1: "parse_ent ?P ''ws'' optsF [2] ?c (?D, after_a_x) = (Return (Some 3), d2, s2)"
    and st: "d2 = index_nodes (heap s2) stubs ?D"
      "stubs_fresh ?P \<longrightarrow> set stubs \<inter> set (compact [Some 3, Some 5]) = {}"
    using p0 pc l0 by (auto dest!: single)
  from B1 X have d2: "d2 = d1" and s2: "s2 = s1" by simp_all
  from st stubs_fresh_spec_collab
  have disj: "set stubs \<inter> set (compact [Some 3, Some 5]) = {}" by blast
  have A: "map_ents ?P ''ws'' optsF [2] [?c] (?D, after_a_x) = (Return [Some 3], d1, s1)"
    using X by simp
  from candidates_are_prevNodes [OF run2 ge me, THEN conjunct1] A
  obtain d3 s3 where
    B2: "parse_ent ?P ''ws'' optsF [2] ?e (d1, s1) = (Return (Some 5), d3, s3)"
    and er: "errors s3 = errors s1 @ [NO_PARENT_PATH ?e ''a.b'']"
    using p1 pe l1 by (auto dest!: single)
  from candidates_are_prevNodes [OF run2 ge me, THEN conjunct2, THEN conjunct2,
      of 3 3 ?fmd] lv
  have "parse_loop ?P ''ws'' optsF ?fmd 3 3 [2] (?D, after_a_x)
      = parse_loop ?P ''ws'' optsF ?fmd 3 (3 + 1) (compact [Some 3, Some 5])
          (index_nodes (heap s') (compact [Some 3, Some 5]) d', s')"
    by simp
  then have lp: "fst (parse_loop ?P ''ws'' optsF ?fmd 3 3 [2] (?D, after_a_x)) = Return ()"
    by (simp add: parse_loop.simps [of _ _ _ _ 3 4])
  from X st(1) disj m4 p4 B2 er lp d2 s2
  show ?thesis by blast
qed

text \<open>
  The claim as stated fails on \<open>root.md\<close>, \<open>a.b.c.md\<close>, \<open>a.b.d.md\<close> with \<open>errorOnEmpty\<close>
  off.  Handling \<open>a.b.c\<close> synthesizes the level-2 stub \<open>a.b\<close> (object 3, of path \<open>a.b\<close>);
  the search for the parent of \<open>a.b.d\<close> still fails, a second \<open>NO_PARENT_PATH\<close> is
  recorded, and \<open>a.b.d\<close> reaches the stub through stub synthesis only.
\<close>

theorem candidates_are_prevNodes_counterexample:
  "fst (parse (spec_collab []) ''ws'' optsF [''root.md'', ''a.b.c.md'', ''a.b.d.md'']
          FileParser_init) = Return [Some 0, Some 2, Some 3, Some 1, Some 4]
   \<and> errors (snd (parse (spec_collab []) ''ws'' optsF [''root.md'', ''a.b.c.md'', ''a.b.d.md'']
          FileParser_init))
       = [NO_PARENT_PATH (file_meta ''a.b.c.md'') ''a.b'',
          NO_PARENT_PATH (file_meta ''a.b.d.md'') ''a.b'']
   \<and> fname (heap (snd (parse (spec_collab []) ''ws'' optsF
          [''root.md'', ''a.b.c.md'', ''a.b.d.md''] FileParser_init)) ! 3) = Some ''a.b''
   \<and> path (heap (snd (parse (spec_collab []) ''ws'' optsF
          [''root.md'', ''a.b.c.md'', ''a.b.d.md''] FileParser_init))) 3 = Some ''a.b''
   \<and> children (heap (snd (parse (spec_collab []) ''ws'' optsF
          [''root.md'', ''a.b.c.md'', ''a.b.d.md''] FileParser_init)) ! 3) = [1, 4]"
  by code_simp

text \<open>
  A file that fails to materialize.  In the level loop, with \<open>errorOnBadParse\<close> off, it
  is recorded as \<open>BAD_PARSE\<close> and skipped.  In the first layer the error is rethrown
  whatever the parser's options are; a note of the first layer is therefore never null.
\<close>

lemma parse_ent_BAD_PARSE:
  assumes "\<not> globMatch P [''root.*''] (fpath ent)"
    and "mdFile2NodeProps P root (fpath ent) = Inl err"
    and "\<not> errorOnBadParse fopts"
  shows "parse_ent P root fopts prevNodes ent (d, s)
           = (Return None, d, s\<lparr>errors := errors s @ [BAD_PARSE ent err]\<rparr>)"
  using assms by (simp add: parse_ent_def toNode_def Let_def)

lemma level1_map_rethrows:
  "mdFile2NodeProps P root (fpath ent) = Inl err
   \<Longrightarrow> level1_map P root (ent # ents) s = (Throw (CollabError err), s)"
  by (simp add: toNode_def Let_def)

lemma level1_map_nonnull:
  "level1_map P root ents s = (Return nodes, s') \<Longrightarrow> None \<notin> set nodes"
proof (induction ents arbitrary: s nodes s')
  case Nil
  then show ?case by auto
next
  case (Cons ent ents)
  let ?o = "\<lparr> t_errorOnEmpty = None, t_isRoot = Some True, t_errorOnBadParse = None \<rparr>"
  obtain r1 s1 where tn: "toNode P root ent [] ?o s = (r1, s1)"
    by (cases "toNode P root ent [] ?o s")
  with Cons.prems obtain node m where r1: "r1 = Return (node, m)"
    by (cases r1) auto
  from tn r1 have some: "node \<noteq> None"
    by (auto simp: toNode_def Let_def make_note_def new_Note_def split: sum.splits if_splits)
  obtain r2 s2 where lm: "level1_map P root ents s1 = (r2, s2)"
    by (cases "level1_map P root ents s1")
  with Cons.prems tn r1 obtain rest where r2: "r2 = Return rest" and nodes: "nodes = node # rest"
    by (cases r2) auto
  from Cons.IH [of s1 rest s2] lm r2 have "None \<notin> set rest" by simp
  with some nodes show ?case by auto
qed

text \<open>
  Claim C3: with \<open>errorOnBadParse\<close> off, no failing file at any level makes \<open>parse\<close>
  throw; a \<open>BAD_PARSE\<close> entry is recorded and the file is skipped.  The code does so
  from level 2 on, and not at level 1.  The call of \<open>toNode\<close> for a level-1 file other
  than \<open>root.md\<close> does not pass \<open>errorOnBadParse\<close> on, so the default applies and the
  collaborator's error is rethrown, with nothing recorded.  When \<open>root.md\<close> itself fails,
  the entry is recorded and the root is null, and attaching the first level-1 note throws a
  \<open>TypeError\<close>.
\<close>

theorem parse_BAD_PARSE_level1:
  "\<not> errorOnBadParse optsF
   \<and> fst (parse (spec_collab [''a.md'']) ''ws'' optsF [''root.md'', ''a.md''] FileParser_init)
       = Throw (CollabError ''bad front matter'')
   \<and> errors (snd (parse (spec_collab [''a.md'']) ''ws'' optsF [''root.md'', ''a.md'']
         FileParser_init)) = []
   \<and> fst (parse (spec_collab [''root.md'']) ''ws'' optsF [''root.md'', ''a.md''] FileParser_init)
       = Throw TypeError
   \<and> fst (parse (spec_collab [''a.b.md'']) ''ws'' optsF
            [''root.md'', ''a.md'', ''a.b.md'', ''a.c.md''] FileParser_init)
       = Return [Some 0, Some 1, Some 2]
   \<and> errors (snd (parse (spec_collab [''a.b.md'']) ''ws'' optsF
            [''root.md'', ''a.md'', ''a.b.md'', ''a.c.md''] FileParser_init))
       = [BAD_PARSE (file_meta ''a.b.md'') ''bad front matter'']"
  by code_simp

text \<open>
  Claim C4: when a file's expected parent path is not found among the candidates, the build
  throws with \<open>errorOnEmpty\<close> true (the default); with \<open>errorOnEmpty\<close> false nothing is
  thrown, a \<open>NO_PARENT_PATH\<close> entry is recorded, the path is added to the missing set and
  stub synthesis goes on.  The code does so for \<open>a.b.c.md\<close> under \<open>root.md\<close>: the build
  throws by default, and with \<open>errorOnEmpty\<close> false it returns, with the entry, the path
  \<open>a.b\<close> in the missing set and the stubs \<open>a\<close> and \<open>a.b\<close> made.  It does not when the
  expected parent path is the empty string.  The stem of \<open>.b.md\<close> is \<open>.b\<close>, of level 2,
  and its \<open>dirName\<close> is the empty string, which \<open>if (missing)\<close> takes for false: with
  \<open>errorOnEmpty\<close> false the entry is recorded, but nothing is added to the missing set, no
  stub is made and the note stays without a parent (by default the build throws for this
  file too).
\<close>

theorem parse_missing_parent_empty_path:
  "level ''.b.md'' = 2
   \<and> dirName (spec_collab []) (prefix (file_meta ''.b.md'')) = []
   \<and> \<not> errorOnEmpty optsF
   \<and> fst (parse (spec_collab []) ''ws'' optsF [''root.md'', ''.b.md''] FileParser_init)
       = Return [Some 0, Some 1]
   \<and> errors (snd (parse (spec_collab []) ''ws'' optsF [''root.md'', ''.b.md''] FileParser_init))
       = [NO_PARENT_PATH (file_meta ''.b.md'') []]
   \<and> missing (snd (parse (spec_collab []) ''ws'' optsF [''root.md'', ''.b.md''] FileParser_init))
       = []
   \<and> length (heap (snd (parse (spec_collab []) ''ws'' optsF [''root.md'', ''.b.md'']
         FileParser_init))) = 2
   \<and> parent (heap (snd (parse (spec_collab []) ''ws'' optsF [''root.md'', ''.b.md'']
         FileParser_init)) ! 1) = None
   \<and> children (heap (snd (parse (spec_collab []) ''ws'' optsF [''root.md'', ''.b.md'']
         FileParser_init)) ! 0) = []
   \<and> errorOnEmpty optsD
   \<and> fst (parse (spec_collab []) ''ws'' optsD [''root.md'', ''.b.md''] FileParser_init)
       = Throw (NoParentError (NO_PARENT_PATH (file_meta ''.b.md'') []))
   \<and> fst (parse (spec_collab []) ''ws'' optsD [''root.md'', ''a.b.c.md''] FileParser_init)
       = Throw (NoParentError (NO_PARENT_PATH (file_meta ''a.b.c.md'') ''a.b''))
   \<and> errors (snd (parse (spec_collab []) ''ws'' optsD [''root.md'', ''a.b.c.md'']
         FileParser_init))
       = [NO_PARENT_PATH (file_meta ''a.b.c.md'') ''a.b'']
   \<and> fst (parse (spec_collab []) ''ws'' optsF [''root.md'', ''a.b.c.md''] FileParser_init)
       = Return [Some 0, Some 2, Some 3, Some 1]
   \<and> errors (snd (parse (spec_collab []) ''ws'' optsF [''root.md'', ''a.b.c.md'']
         FileParser_init))
       = [NO_PARENT_PATH (file_meta ''a.b.c.md'') ''a.b'']
   \<and> missing (snd (parse (spec_collab []) ''ws'' optsF [''root.md'', ''a.b.c.md'']
         FileParser_init))
       = [''a.b'']
   \<and> map title (heap (snd (parse (spec_collab []) ''ws'' optsF [''root.md'', ''a.b.c.md'']
         FileParser_init)))
       = [''root'', ''c'', ''a'', ''b'']"
  by code_simp

section \<open>Properties of the schema file resolver\<close>

text \<open>More fuel never changes a result: a resolution that returns does so for every larger bound.\<close>

lemma flatMap_files_mono:
  "(\<And>f r. f \<in> set ents \<Longrightarrow> pf (f @ ''.schema.yml'') = Some r
      \<Longrightarrow> pf' (f @ ''.schema.yml'') = Some r)
   \<Longrightarrow> flatMap_files pf ents = Some r \<Longrightarrow> flatMap_files pf' ents = Some r"
proof (induction ents arbitrary: r)
  case Nil
  then show ?case by simp
next
  case (Cons e es)
  then show ?case
    by (auto split: option.splits outcome.splits)
qed

lemma parseSchemaFile_more_fuel:
  "parseSchemaFile E k root fp = Some r \<Longrightarrow> parseSchemaFile E (Suc k) root fp = Some r"
proof (induction k arbitrary: fp r)
  case 0
  then show ?case by simp
next
  case (Suc k)
  show ?case
  proof (cases "readYaml E root fp")
    case (Inl a)
    with Suc.prems show ?thesis by simp
  next
    case (Inr y)
    show ?thesis
    proof (cases "\<exists>os. y = YArray os")
      case True
      with Inr Suc.prems show ?thesis by auto
    next
      case False
      with Inr Suc.prems
      have v1: "parseSchemaVersion1 E (parseSchemaFile E k root) y (parse_name fp) = Some r"
        by (cases y) simp_all
      have "parseSchemaVersion1 E (parseSchemaFile E (Suc k) root) y (parse_name fp) = Some r"
        using v1 flatMap_files_mono
          [of _ "parseSchemaFile E k root" "parseSchemaFile E (Suc k) root", OF Suc.IH]
        unfolding parseSchemaVersion1_def
        by (auto split: yaml.splits option.splits outcome.splits prod.splits simp: Let_def)
      with Inr False show ?thesis by (cases y) simp_all
    qed
  qed
qed

text \<open>An import cycle is not detected: a file that imports itself is never resolved.\<close>

lemma import_cycle_never_returns:
  "parseSchemaFile sample_env k ''ws'' ''loop.schema.yml'' = None"
proof (induction k)
  case 0
  show ?case by simp
next
  case (Suc k)
  have r: "readYaml sample_env ''ws'' ''loop.schema.yml'' = Inr (YObject (Some [''loop'']) (Some []))"
    by (simp add: sample_env_def sample_files_def)
  show ?case
    using Suc by (simp add: r parseSchemaVersion1_def)
qed

text \<open>
  Claim C6.  In \<open>parseSchemaVersion1\<close> for a file named \<open>fname\<close>, every record \<open>e\<close>
  resolved from the imports is rewritten before it is put in front of the file's own
  entries: with \<open>domain = SchemaUtils.fname(e.fname)\<close> (\<open>shared\<close> for a record of
  \<open>shared.schema.yml\<close>), its id becomes \<open>domain.id\<close>, its fname the importer's \<open>fname\<close>, its
  pattern the old id when it had none, its parent null, and each child id gets the prefix
  \<open>domain.\<close>.
\<close>

theorem parseSchemaVersion1_import_namespacing:
  assumes "flatMap_files parseFile imports = Some (Return recs)"
  shows "\<exists>out. parseSchemaVersion1 E parseFile (YObject (Some imports) (Some schemas)) fname'
            = Some (Return (out @ map (\<lambda>o'. createRawProps E (o'\<lparr>r_fname := Some fname'\<rparr>))
                                   schemas))
          \<and> length out = length recs
          \<and> (\<forall>i<length recs.
                sid (out ! i) = SchemaUtils_fname E (sfname (recs ! i)) @ ''.'' @ sid (recs ! i)
              \<and> sfname (out ! i) = fname'
              \<and> pattern (data (out ! i)) =
                  (case pattern (data (recs ! i)) of
                     None \<Rightarrow> Some (sid (recs ! i))
                   | Some p \<Rightarrow> if p = [] then Some (sid (recs ! i)) else Some p)
              \<and> sparent (out ! i) = None
              \<and> schildren (out ! i) =
                  map (\<lambda>c. SchemaUtils_fname E (sfname (recs ! i)) @ ''.'' @ c)
                    (schildren (recs ! i)))"
  using assms
  by (intro exI [of _ "map (namespace_import E fname') recs"])
     (simp add: parseSchemaVersion1_def namespace_import_def Let_def)

theorem parseSchemaVersion1_import_namespacing_witness:
  "\<exists>out. parseSchemaVersion1 sample_env (parseSchemaFile sample_env 1 ''ws'')
            (YObject (Some [''shared'']) (Some [])) ''domain'' = Some (Return out)
         \<and> sid (out ! 0) = ''shared.x''
         \<and> sfname (out ! 0) = ''domain''
         \<and> pattern (data (out ! 0)) = Some ''x''
         \<and> sparent (out ! 0) = None
         \<and> schildren (out ! 0) = [''shared.y'']"
proof -
  let ?x = "\<lparr> sid = ''x'', sfname = ''shared.schema'', data = \<lparr> pattern = None \<rparr>,
              sparent = None, schildren = [''y''] \<rparr>"
  let ?y = "\<lparr> sid = ''y'', sfname = ''shared.schema'', data = \<lparr> pattern = Some ''why'' \<rparr>,
              sparent = None, schildren = [] \<rparr>"
  have h: "flatMap_files (parseSchemaFile sample_env 1 ''ws'') [''shared'']
             = Some (Return [?x, ?y])"
    by code_simp
  from parseSchemaVersion1_import_namespacing [OF h, of sample_env "[]" "''domain''"]
  obtain out where
    res: "parseSchemaVersion1 sample_env (parseSchemaFile sample_env 1 ''ws'')
            (YObject (Some [''shared'']) (Some [])) ''domain'' = Some (Return out)"
    and each: "\<forall>i<length [?x, ?y].
                sid (out ! i) = SchemaUtils_fname sample_env (sfname ([?x, ?y] ! i)) @ ''.''
                                  @ sid ([?x, ?y] ! i)
              \<and> sfname (out ! i) = ''domain''
              \<and> pattern (data (out ! i)) =
                  (case pattern (data ([?x, ?y] ! i)) of
                     None \<Rightarrow> Some (sid ([?x, ?y] ! i))
                   | Some p \<Rightarrow> if p = [] then Some (sid ([?x, ?y] ! i)) else Some p)
              \<and> sparent (out ! i) = None
              \<and> schildren (out ! i) =
                  map (\<lambda>c. SchemaUtils_fname sample_env (sfname ([?x, ?y] ! i)) @ ''.'' @ c)
                    (schildren ([?x, ?y] ! i))"
    by auto
  from each have "sid (out ! 0) = ''shared.x'' \<and> sfname (out ! 0) = ''domain''
      \<and> pattern (data (out ! 0)) = Some ''x'' \<and> sparent (out ! 0) = None
      \<and> schildren (out ! 0) = [''shared.y'']"
    by (simp add: sample_env_def)
  with res show ?thesis by blast
qed

text \<open>
  What \<open>_.flatMap\<close> over the imports returns: every import is resolved, in order, and the
  results are concatenated; the first import that throws ends the resolution.
\<close>

lemma flatMap_files_Return_iff:
  "flatMap_files pf ms = Some (Return recs)
   \<longleftrightarrow> (\<exists>rss. list_all2 (\<lambda>m rs. pf (m @ ''.schema.yml'') = Some (Return rs)) ms rss
           \<and> recs = concat rss)"
proof (induction ms arbitrary: recs)
  case Nil
  show ?case by auto
next
  case (Cons m ms)
  show ?case
  proof
    assume a: "flatMap_files pf (m # ms) = Some (Return recs)"
    then obtain rs rs' where m: "pf (m @ ''.schema.yml'') = Some (Return rs)"
      and ms: "flatMap_files pf ms = Some (Return rs')" and recs: "recs = rs @ rs'"
      by (auto split: option.splits outcome.splits)
    from ms Cons.IH [of rs'] obtain rss where
      "list_all2 (\<lambda>m rs. pf (m @ ''.schema.yml'') = Some (Return rs)) ms rss" "rs' = concat rss"
      by blast
    with m recs
    have "list_all2 (\<lambda>m rs. pf (m @ ''.schema.yml'') = Some (Return rs)) (m # ms) (rs # rss)
          \<and> recs = concat (rs # rss)" by simp
    then show "\<exists>rss. list_all2 (\<lambda>m rs. pf (m @ ''.schema.yml'') = Some (Return rs)) (m # ms) rss
           \<and> recs = concat rss" by blast
  next
    assume "\<exists>rss. list_all2 (\<lambda>m rs. pf (m @ ''.schema.yml'') = Some (Return rs)) (m # ms) rss
           \<and> recs = concat rss"
    then obtain rs rss where m: "pf (m @ ''.schema.yml'') = Some (Return rs)"
      and all: "list_all2 (\<lambda>m rs. pf (m @ ''.schema.yml'') = Some (Return rs)) ms rss"
      and recs: "recs = rs @ concat rss"
      by (auto simp: list_all2_Cons1)
    from all Cons.IH [of "concat rss"] have "flatMap_files pf ms = Some (Return (concat rss))"
      by blast
    with m recs show "flatMap_files pf (m # ms) = Some (Return recs)" by simp
  qed
qed

lemma flatMap_files_Throw:
  "list_all2 (\<lambda>m rs. pf (m @ ''.schema.yml'') = Some (Return rs)) ms1 rss
   \<Longrightarrow> pf (m @ ''.schema.yml'') = Some (Throw x)
   \<Longrightarrow> flatMap_files pf (ms1 @ m # ms2) = Some (Throw x)"
  by (induction rule: list_all2_induct) simp_all

lemma parseSchemaFile_fuel_le:
  "k \<le> k' \<Longrightarrow> parseSchemaFile E k root fp = Some r \<Longrightarrow> parseSchemaFile E k' root fp = Some r"
proof -
  assume le: "k \<le> k'" and r: "parseSchemaFile E k root fp = Some r"
  have "parseSchemaFile E (k + j) root fp = Some r" for j
    by (induction j) (simp_all add: r parseSchemaFile_more_fuel del: parseSchemaFile.simps)
  from this [of "k' - k"] le show ?thesis by simp
qed

lemma list_all2_common_fuel:
  "list_all2 (\<lambda>m rs. \<exists>k. parseSchemaFile E k root (m @ ''.schema.yml'') = Some (Return rs)) ms rss
   \<Longrightarrow> \<exists>K. list_all2 (\<lambda>m rs. parseSchemaFile E K root (m @ ''.schema.yml'') = Some (Return rs))
             ms rss"
proof (induction rule: list_all2_induct)
  case Nil
  show ?case by simp
next
  case (Cons m ms rs rss)
  then obtain k K where k: "parseSchemaFile E k root (m @ ''.schema.yml'') = Some (Return rs)"
    and K: "list_all2 (\<lambda>m rs. parseSchemaFile E K root (m @ ''.schema.yml'') = Some (Return rs))
              ms rss"
    by blast
  have 1: "parseSchemaFile E (max k K) root (m @ ''.schema.yml'') = Some (Return rs)"
    using k by (rule parseSchemaFile_fuel_le [rotated]) simp
  have 2: "list_all2 (\<lambda>m rs. parseSchemaFile E (max k K) root (m @ ''.schema.yml'')
              = Some (Return rs)) ms rss"
    using K by (rule list_all2_mono) (auto intro: parseSchemaFile_fuel_le [rotated])
  from 1 2 show ?case by (intro exI [of _ "max k K"]) simp
qed

lemma parseSchemaFile_v1_iff:
  assumes r: "readYaml E root fp = Inr (YObject imports (Some ss))"
  shows "parseSchemaFile E (Suc k) root fp = Some (Return out)
     \<longleftrightarrow> (\<exists>rss. list_all2 (\<lambda>m rs. parseSchemaFile E k root (m @ ''.schema.yml'')
                                     = Some (Return rs)) (dflt [] imports) rss
            \<and> out = map (namespace_import E (parse_name fp)) (concat rss)
                    @ map (\<lambda>o'. createRawProps E (o'\<lparr>r_fname := Some (parse_name fp)\<rparr>)) ss)"
proof -
  have "parseSchemaFile E (Suc k) root fp = Some (Return out)
     \<longleftrightarrow> (\<exists>recs. flatMap_files (parseSchemaFile E k root) (dflt [] imports) = Some (Return recs)
            \<and> out = map (namespace_import E (parse_name fp)) recs
                    @ map (\<lambda>o'. createRawProps E (o'\<lparr>r_fname := Some (parse_name fp)\<rparr>)) ss)"
    using r by (auto simp: parseSchemaVersion1_def Let_def split: option.splits outcome.splits)
  then show ?thesis
    unfolding flatMap_files_Return_iff by blast
qed

lemma resolves_v1_iff:
  assumes r: "readYaml E root fp = Inr (YObject imports (Some ss))"
  shows "resolves E root fp out
     \<longleftrightarrow> (\<exists>rss. list_all2 (\<lambda>m rs. resolves E root (m @ ''.schema.yml'') rs) (dflt [] imports) rss
            \<and> out = map (namespace_import E (parse_name fp)) (concat rss)
                    @ map (\<lambda>o'. createRawProps E (o'\<lparr>r_fname := Some (parse_name fp)\<rparr>)) ss)"
proof
  assume "resolves E root fp out"
  then obtain k where k: "parseSchemaFile E k root fp = Some (Return out)"
    by (auto simp: resolves_def)
  then obtain j where j: "k = Suc j" by (cases k) auto
  from k [unfolded j parseSchemaFile_v1_iff [OF r]] obtain rss where
    all: "list_all2 (\<lambda>m rs. parseSchemaFile E j root (m @ ''.schema.yml'') = Some (Return rs))
            (dflt [] imports) rss"
    and out: "out = map (namespace_import E (parse_name fp)) (concat rss)
                    @ map (\<lambda>o'. createRawProps E (o'\<lparr>r_fname := Some (parse_name fp)\<rparr>)) ss"
    by blast
  from all have "list_all2 (\<lambda>m rs. resolves E root (m @ ''.schema.yml'') rs) (dflt [] imports) rss"
    by (rule list_all2_mono) (auto simp: resolves_def)
  with out show "\<exists>rss. list_all2 (\<lambda>m rs. resolves E root (m @ ''.schema.yml'') rs)
                   (dflt [] imports) rss
            \<and> out = map (namespace_import E (parse_name fp)) (concat rss)
                    @ map (\<lambda>o'. createRawProps E (o'\<lparr>r_fname := Some (parse_name fp)\<rparr>)) ss"
    by blast
next
  assume "\<exists>rss. list_all2 (\<lambda>m rs. resolves E root (m @ ''.schema.yml'') rs) (dflt [] imports) rss
            \<and> out = map (namespace_import E (parse_name fp)) (concat rss)
                    @ map (\<lambda>o'. createRawProps E (o'\<lparr>r_fname := Some (parse_name fp)\<rparr>)) ss"
  then obtain rss where
    all: "list_all2 (\<lambda>m rs. resolves E root (m @ ''.schema.yml'') rs) (dflt [] imports) rss"
    and out: "out = map (namespace_import E (parse_name fp)) (concat rss)
                    @ map (\<lambda>o'. createRawProps E (o'\<lparr>r_fname := Some (parse_name fp)\<rparr>)) ss"
    by blast
  from all list_all2_common_fuel [of E root "dflt [] imports" rss]
  obtain K where "list_all2 (\<lambda>m rs. parseSchemaFile E K root (m @ ''.schema.yml'')
                    = Some (Return rs)) (dflt [] imports) rss"
    unfolding resolves_def by blast
  with out have "parseSchemaFile E (Suc K) root fp = Some (Return out)"
    unfolding parseSchemaFile_v1_iff [OF r] by blast
  then show "resolves E root fp out" unfolding resolves_def by blast
qed

text \<open>
  Claim C7.  \<open>parseSchemaFile\<close> tells the version by the shape of the parsed value alone.
  An array is version 0: the result is each entry passed to \<open>createRawProps\<close> with the
  file's name, and no other file is opened.  Any other value goes to
  \<open>parseSchemaVersion1\<close>, whose imports are resolved by \<open>parseSchemaFile\<close> itself.  For an
  object with \<open>schemas\<close>, the file resolves to \<open>out\<close> exactly when every one of its imports
  \<open>m\<close>, in order, resolves (the file \<open>m.schema.yml\<close>, by the same procedure, one level
  deeper) and \<open>out\<close> is the rewritten records of all of them, concatenated in the order of
  the imports, followed by the object's own entries.  When the imports before \<open>m\<close>
  resolve and resolving \<open>m\<close> throws, resolving the file throws the same.
\<close>

theorem parseSchemaFile_version_by_shape:
  "(readYaml E root fp = Inr (YArray os) \<longrightarrow>
      parseSchemaFile E (Suc k) root fp
        = Some (Return (map (\<lambda>o'. createRawProps E (o'\<lparr>r_fname := Some (parse_name fp)\<rparr>)) os))
      \<and> (resolves E root fp out
           \<longleftrightarrow> out = map (\<lambda>o'. createRawProps E (o'\<lparr>r_fname := Some (parse_name fp)\<rparr>)) os))
   \<and> (readYaml E root fp = Inr y \<longrightarrow> (\<forall>os. y \<noteq> YArray os) \<longrightarrow>
      parseSchemaFile E (Suc k) root fp
        = parseSchemaVersion1 E (parseSchemaFile E k root) y (parse_name fp))
   \<and> (readYaml E root fp = Inr (YObject imports (Some ss)) \<longrightarrow>
      (parseSchemaFile E (Suc k) root fp = Some (Return out)
         \<longleftrightarrow> (\<exists>rss. list_all2 (\<lambda>m rs. parseSchemaFile E k root (m @ ''.schema.yml'')
                                         = Some (Return rs)) (dflt [] imports) rss
                \<and> out = map (namespace_import E (parse_name fp)) (concat rss)
                        @ map (\<lambda>o'. createRawProps E (o'\<lparr>r_fname := Some (parse_name fp)\<rparr>))
                            ss))
      \<and> (resolves E root fp out
         \<longleftrightarrow> (\<exists>rss. list_all2 (\<lambda>m rs. resolves E root (m @ ''.schema.yml'') rs)
                       (dflt [] imports) rss
                \<and> out = map (namespace_import E (parse_name fp)) (concat rss)
                        @ map (\<lambda>o'. createRawProps E (o'\<lparr>r_fname := Some (parse_name fp)\<rparr>))
                            ss)))
   \<and> (readYaml E root fp = Inr (YObject (Some (ms1 @ m # ms2)) schemas) \<longrightarrow>
      list_all2 (\<lambda>m rs. parseSchemaFile E k root (m @ ''.schema.yml'') = Some (Return rs))
        ms1 rss1 \<longrightarrow>
      parseSchemaFile E k root (m @ ''.schema.yml'') = Some (Throw x) \<longrightarrow>
      parseSchemaFile E (Suc k) root fp = Some (Throw x))"
proof (intro conjI impI)
  assume r: "readYaml E root fp = Inr (YArray os)"
  then show "parseSchemaFile E (Suc k) root fp
        = Some (Return (map (\<lambda>o'. createRawProps E (o'\<lparr>r_fname := Some (parse_name fp)\<rparr>)) os))"
    by simp
  show "resolves E root fp out
           \<longleftrightarrow> out = map (\<lambda>o'. createRawProps E (o'\<lparr>r_fname := Some (parse_name fp)\<rparr>)) os"
  proof
    assume "resolves E root fp out"
    then obtain j where j: "parseSchemaFile E j root fp = Some (Return out)"
      by (auto simp: resolves_def)
    then obtain i where "j = Suc i" by (cases j) auto
    with j r
    show "out = map (\<lambda>o'. createRawProps E (o'\<lparr>r_fname := Some (parse_name fp)\<rparr>)) os"
      by simp
  next
    assume "out = map (\<lambda>o'. createRawProps E (o'\<lparr>r_fname := Some (parse_name fp)\<rparr>)) os"
    with r have "parseSchemaFile E (Suc 0) root fp = Some (Return out)" by simp
    then show "resolves E root fp out" unfolding resolves_def by blast
  qed
next
  assume "readYaml E root fp = Inr y" "\<forall>os. y \<noteq> YArray os"
  then show "parseSchemaFile E (Suc k) root fp
        = parseSchemaVersion1 E (parseSchemaFile E k root) y (parse_name fp)"
    by (cases y) simp_all
next
  assume r: "readYaml E root fp = Inr (YObject imports (Some ss))"
  show "parseSchemaFile E (Suc k) root fp = Some (Return out)
         \<longleftrightarrow> (\<exists>rss. list_all2 (\<lambda>m rs. parseSchemaFile E k root (m @ ''.schema.yml'')
                                         = Some (Return rs)) (dflt [] imports) rss
                \<and> out = map (namespace_import E (parse_name fp)) (concat rss)
                        @ map (\<lambda>o'. createRawProps E (o'\<lparr>r_fname := Some (parse_name fp)\<rparr>))
                            ss)"
    by (rule parseSchemaFile_v1_iff [OF r])
  show "resolves E root fp out
         \<longleftrightarrow> (\<exists>rss. list_all2 (\<lambda>m rs. resolves E root (m @ ''.schema.yml'') rs)
                       (dflt [] imports) rss
                \<and> out = map (namespace_import E (parse_name fp)) (concat rss)
                        @ map (\<lambda>o'. createRawProps E (o'\<lparr>r_fname := Some (parse_name fp)\<rparr>))
                            ss)"
    by (rule resolves_v1_iff [OF r])
next
  assume r: "readYaml E root fp = Inr (YObject (Some (ms1 @ m # ms2)) schemas)"
    and "list_all2 (\<lambda>m rs. parseSchemaFile E k root (m @ ''.schema.yml'') = Some (Return rs))
           ms1 rss1"
    and "parseSchemaFile E k root (m @ ''.schema.yml'') = Some (Throw x)"
  then have "flatMap_files (parseSchemaFile E k root) (ms1 @ m # ms2) = Some (Throw x)"
    by (intro flatMap_files_Throw)
  with r show "parseSchemaFile E (Suc k) root fp = Some (Throw x)"
    by (simp add: parseSchemaVersion1_def)
qed

text \<open>
  \<open>top.schema.yml\<close> imports \<open>domain\<close>, which imports \<open>shared\<close>, and \<open>shared\<close>: the records
  of both imports are in the result, those reached through \<open>domain\<close> namespaced twice.
  \<open>broken.schema.yml\<close> imports \<open>shared\<close>, a file that does not exist, and \<open>loop\<close>:
  the read error of the second import is thrown.
\<close>

theorem parseSchemaFile_version_by_shape_witness:
  "parseSchemaFile sample_env 1 ''ws'' ''shared.schema.yml''
     = Some (Return
         [\<lparr> sid = ''x'', sfname = ''shared.schema'', data = \<lparr> pattern = None \<rparr>,
            sparent = None, schildren = [''y''] \<rparr>,
          \<lparr> sid = ''y'', sfname = ''shared.schema'', data = \<lparr> pattern = Some ''why'' \<rparr>,
            sparent = None, schildren = [] \<rparr>])
   \<and> parseSchemaFile sample_env 3 ''ws'' ''top.schema.yml''
     = Some (Return
         [\<lparr> sid = ''domain.shared.x'', sfname = ''top.schema'', data = \<lparr> pattern = Some ''x'' \<rparr>,
            sparent = None, schildren = [''domain.shared.y''] \<rparr>,
          \<lparr> sid = ''domain.shared.y'', sfname = ''top.schema'',
            data = \<lparr> pattern = Some ''why'' \<rparr>, sparent = None, schildren = [] \<rparr>,
          \<lparr> sid = ''domain.domain'', sfname = ''top.schema'',
            data = \<lparr> pattern = Some ''domain'' \<rparr>, sparent = None,
            schildren = [''domain.shared.x''] \<rparr>,
          \<lparr> sid = ''shared.x'', sfname = ''top.schema'', data = \<lparr> pattern = Some ''x'' \<rparr>,
            sparent = None, schildren = [''shared.y''] \<rparr>,
          \<lparr> sid = ''shared.y'', sfname = ''top.schema'', data = \<lparr> pattern = Some ''why'' \<rparr>,
            sparent = None, schildren = [] \<rparr>,
          \<lparr> sid = ''top'', sfname = ''top.schema'', data = \<lparr> pattern = None \<rparr>,
            sparent = None, schildren = [] \<rparr>])
   \<and> parseSchemaFile sample_env 2 ''ws'' ''broken.schema.yml''
     = Some (Throw (CollabError ''ENOENT''))"
proof -
  let ?xo = "\<lparr> r_id = ''x'', r_fname = None, r_pattern = None, r_parent = None,
               r_children = Some [''y''] \<rparr>"
  let ?yo = "\<lparr> r_id = ''y'', r_fname = None, r_pattern = Some ''why'', r_parent = None,
               r_children = None \<rparr>"
  let ?to = "\<lparr> r_id = ''top'', r_fname = None, r_pattern = None, r_parent = None,
               r_children = None \<rparr>"
  let ?x = "\<lparr> sid = ''x'', sfname = ''shared.schema'', data = \<lparr> pattern = None \<rparr>,
              sparent = None, schildren = [''y''] \<rparr>"
  let ?y = "\<lparr> sid = ''y'', sfname = ''shared.schema'', data = \<lparr> pattern = Some ''why'' \<rparr>,
              sparent = None, schildren = [] \<rparr>"
  let ?dx = "\<lparr> sid = ''shared.x'', sfname = ''domain.schema'', data = \<lparr> pattern = Some ''x'' \<rparr>,
               sparent = None, schildren = [''shared.y''] \<rparr>"
  let ?dy = "\<lparr> sid = ''shared.y'', sfname = ''domain.schema'',
               data = \<lparr> pattern = Some ''why'' \<rparr>, sparent = None, schildren = [] \<rparr>"
  let ?dd = "\<lparr> sid = ''domain'', sfname = ''domain.schema'', data = \<lparr> pattern = None \<rparr>,
               sparent = None, schildren = [''shared.x''] \<rparr>"
  have r0: "readYaml sample_env ''ws'' ''shared.schema.yml'' = Inr (YArray [?xo, ?yo])"
    by (simp add: sample_env_def sample_files_def)
  have r1: "readYaml sample_env ''ws'' ''top.schema.yml''
              = Inr (YObject (Some [''domain'', ''shared'']) (Some [?to]))"
    by (simp add: sample_env_def sample_files_def)
  have im: "list_all2 (\<lambda>m rs. parseSchemaFile sample_env 2 ''ws'' (m @ ''.schema.yml'')
                                  = Some (Return rs))
              (dflt [] (Some [''domain'', ''shared''])) [[?dx, ?dy, ?dd], [?x, ?y]]"
    by code_simp
  from parseSchemaFile_version_by_shape
    [of sample_env "''ws''" "''shared.schema.yml''" "[?xo, ?yo]" 0]
  have v0: "parseSchemaFile sample_env (Suc 0) ''ws'' ''shared.schema.yml''
      = Some (Return (map (\<lambda>o'. createRawProps sample_env
                 (o'\<lparr>r_fname := Some (parse_name ''shared.schema.yml'')\<rparr>)) [?xo, ?yo]))"
    using r0 by blast
  from parseSchemaFile_version_by_shape
    [of sample_env "''ws''" "''top.schema.yml''" _ 2
        "map (namespace_import sample_env (parse_name ''top.schema.yml''))
           (concat [[?dx, ?dy, ?dd], [?x, ?y]])
         @ map (\<lambda>o'. createRawProps sample_env
                   (o'\<lparr>r_fname := Some (parse_name ''top.schema.yml'')\<rparr>)) [?to]"
        _ "Some [''domain'', ''shared'']" "[?to]"]
  have v1: "parseSchemaFile sample_env (Suc 2) ''ws'' ''top.schema.yml''
      = Some (Return (map (namespace_import sample_env (parse_name ''top.schema.yml''))
                        (concat [[?dx, ?dy, ?dd], [?x, ?y]])
              @ map (\<lambda>o'. createRawProps sample_env
                   (o'\<lparr>r_fname := Some (parse_name ''top.schema.yml'')\<rparr>)) [?to]))"
    using r1 im by blast
  have r2: "readYaml sample_env ''ws'' ''broken.schema.yml''
              = Inr (YObject (Some ([''shared''] @ ''nofile'' # [''loop''])) (Some []))"
    by (simp add: sample_env_def sample_files_def)
  have before: "list_all2 (\<lambda>m rs. parseSchemaFile sample_env 1 ''ws'' (m @ ''.schema.yml'')
                                  = Some (Return rs)) [''shared''] [[?x, ?y]]"
    by code_simp
  have nofile: "parseSchemaFile sample_env 1 ''ws'' (''nofile'' @ ''.schema.yml'')
                  = Some (Throw (CollabError ''ENOENT''))"
    by code_simp
  from parseSchemaFile_version_by_shape
    [of sample_env "''ws''" "''broken.schema.yml''" _ 1 _ _ _ _ "[''shared'']" "''nofile''"
        "[''loop'']" "Some []" "[[?x, ?y]]" "CollabError ''ENOENT''"]
  have v2: "parseSchemaFile sample_env (Suc 1) ''ws'' ''broken.schema.yml''
      = Some (Throw (CollabError ''ENOENT''))"
    using r2 before nofile by blast
  have n0: "parse_name ''shared.schema.yml'' = ''shared.schema''" by code_simp
  have n1: "parse_name ''top.schema.yml'' = ''top.schema''" by code_simp
  have one: "(1::nat) = Suc 0" and two: "(2::nat) = Suc 1" and three: "(3::nat) = Suc 2"
    by simp_all
  have thrown: "parseSchemaFile sample_env 2 ''ws'' ''broken.schema.yml''
      = Some (Throw (CollabError ''ENOENT''))"
    unfolding two by (rule v2)
  show ?thesis
    unfolding one three v0 v1 n0 n1 thrown
    by (simp add: sample_env_def createRawProps_spec_def namespace_import_def Let_def)
qed

end
